theory Spec2Isabelle
  imports Main "HOL-Library.Char_ord"
begin

section \<open>Data model of ChessVar.py\<close>

text \<open>
  The three exception classes of the module, and the built-in Python exceptions that the
  engine's own statements can raise (indexing a string, a dictionary lookup, a method call
  on \<open>None\<close>, \<open>list.remove\<close> and \<open>int()\<close>).
\<close>

datatype exn =
  GameOverError | MoveOutOfTurnError | IllegalMoveError
  | IndexError | KeyError | AttributeError | ValueError

text \<open>The six subclasses of \<open>Piece\<close>; \<open>get_type\<close> returns the class's name.\<close>

datatype piece_type = Pawn | Knight | Bishop | Rook | Queen | King

text \<open>
  The two \<open>Player\<close> objects of a game: \<open>player_list[0]\<close> has colour "White" and
  \<open>player_list[1]\<close> has colour "Black". Players are compared by identity in the source.
\<close>

datatype color = White | Black

datatype state = UNFINISHED | WHITE_WON | BLACK_WON

text \<open>The direction strings that \<open>Piece.move\<close> computes; four of them contain "diagonal".\<close>

datatype direction =
  Up | Down | ToLeft | ToRight
  | DiagUpRight | DiagDownRight | DiagUpLeft | DiagDownLeft

fun diagonal :: "direction \<Rightarrow> bool" where
  "diagonal Up = False"
| "diagonal Down = False"
| "diagonal ToLeft = False"
| "diagonal ToRight = False"
| "diagonal DiagUpRight = True"
| "diagonal DiagDownRight = True"
| "diagonal DiagUpLeft = True"
| "diagonal DiagDownLeft = True"

text \<open>
  A \<open>BoardPosition\<close> object is referred to by its two-character \<open>position_string\<close>, held
  as the pair of its file character and its rank character. \<open>Piece\<close> objects live in a
  heap addressed by natural numbers; a piece's \<open>position\<close> is a reference to a board
  position, or \<open>None\<close> once captured.
\<close>

type_synonym square = "char \<times> char"

type_synonym pid = nat

definition get_string :: "square \<Rightarrow> string" where
  "get_string sq = [fst sq, snd sq]"

record piece =
  ptype :: piece_type
  owner :: color
  position :: "square option"

text \<open>
  The whole mutable state reachable from a \<open>ChessVar\<close> object: the \<open>piece\<close> field of every
  board position, the game state, the heap of pieces, each player's \<open>piece_list\<close> and
  the player whose turn it is.
\<close>

record chessvar =
  board_state :: "square \<Rightarrow> pid option"
  game_state :: state
  pieces :: "pid \<Rightarrow> piece"
  piece_list :: "color \<Rightarrow> pid list"
  turn :: color

section \<open>Board\<close>

text \<open>The keys of the dictionary built by \<open>Board.__init__\<close>, in the order written there.\<close>

definition board_keys :: "string list" where
  "board_keys = concat (map (\<lambda>f. map (\<lambda>r. [f, r]) ''12345678'') ''abcdefgh'')"

definition get_board_position :: "string \<Rightarrow> exn + square" where
  "get_board_position position_string =
     (if position_string \<in> set board_keys
      then Inr (position_string ! 0, position_string ! 1)
      else Inl KeyError)"

definition get_position_state :: "chessvar \<Rightarrow> string \<Rightarrow> exn + pid option" where
  "get_position_state g position_string =
     (case get_board_position position_string of
        Inl e \<Rightarrow> Inl e
      | Inr sq \<Rightarrow> Inr (board_state g sq))"

section \<open>Piece: stepping\<close>

text \<open>
  \<open>iterate_position_str(character, direction, distance)\<close>: the tables of the source,
  entry by entry. The first argument is the type of the piece the method is called on.
\<close>

definition iterate_position_str :: "piece_type \<Rightarrow> char \<Rightarrow> nat \<Rightarrow> nat option \<Rightarrow> char option" where
  "iterate_position_str t character dir distance =
     (if t \<noteq> Knight \<or> distance = Some 1 then
        (if dir = 0 then
           (if CHR ''a'' \<le> character \<and> character \<le> CHR ''h'' then
              (if character = CHR ''a'' then None
               else if character = CHR ''b'' then Some (CHR ''a'')
               else if character = CHR ''c'' then Some (CHR ''b'')
               else if character = CHR ''d'' then Some (CHR ''c'')
               else if character = CHR ''e'' then Some (CHR ''d'')
               else if character = CHR ''f'' then Some (CHR ''e'')
               else if character = CHR ''g'' then Some (CHR ''f'')
               else if character = CHR ''h'' then Some (CHR ''g'')
               else None)
            else if CHR ''1'' \<le> character \<and> character \<le> CHR ''8'' then
              (if character = CHR ''1'' then None
               else if character = CHR ''2'' then Some (CHR ''1'')
               else if character = CHR ''3'' then Some (CHR ''2'')
               else if character = CHR ''4'' then Some (CHR ''3'')
               else if character = CHR ''5'' then Some (CHR ''4'')
               else if character = CHR ''6'' then Some (CHR ''5'')
               else if character = CHR ''7'' then Some (CHR ''6'')
               else if character = CHR ''8'' then Some (CHR ''7'')
               else None)
            else None)
         else
           (if CHR ''a'' \<le> character \<and> character \<le> CHR ''h'' then
              (if character = CHR ''a'' then Some (CHR ''b'')
               else if character = CHR ''b'' then Some (CHR ''c'')
               else if character = CHR ''c'' then Some (CHR ''d'')
               else if character = CHR ''d'' then Some (CHR ''e'')
               else if character = CHR ''e'' then Some (CHR ''f'')
               else if character = CHR ''f'' then Some (CHR ''g'')
               else if character = CHR ''g'' then Some (CHR ''h'')
               else if character = CHR ''h'' then None
               else None)
            else if CHR ''1'' \<le> character \<and> character \<le> CHR ''8'' then
              (if character = CHR ''1'' then Some (CHR ''2'')
               else if character = CHR ''2'' then Some (CHR ''3'')
               else if character = CHR ''3'' then Some (CHR ''4'')
               else if character = CHR ''4'' then Some (CHR ''5'')
               else if character = CHR ''5'' then Some (CHR ''6'')
               else if character = CHR ''6'' then Some (CHR ''7'')
               else if character = CHR ''7'' then Some (CHR ''8'')
               else if character = CHR ''8'' then None
               else None)
            else None))
      else
        (if dir = 0 then
           (if CHR ''a'' \<le> character \<and> character \<le> CHR ''h'' then
              (if character = CHR ''a'' then None
               else if character = CHR ''b'' then None
               else if character = CHR ''c'' then Some (CHR ''a'')
               else if character = CHR ''d'' then Some (CHR ''b'')
               else if character = CHR ''e'' then Some (CHR ''c'')
               else if character = CHR ''f'' then Some (CHR ''d'')
               else if character = CHR ''g'' then Some (CHR ''e'')
               else if character = CHR ''h'' then Some (CHR ''f'')
               else None)
            else if CHR ''1'' \<le> character \<and> character \<le> CHR ''8'' then
              (if character = CHR ''1'' then None
               else if character = CHR ''2'' then None
               else if character = CHR ''3'' then Some (CHR ''1'')
               else if character = CHR ''4'' then Some (CHR ''2'')
               else if character = CHR ''5'' then Some (CHR ''3'')
               else if character = CHR ''6'' then Some (CHR ''4'')
               else if character = CHR ''7'' then Some (CHR ''5'')
               else if character = CHR ''8'' then Some (CHR ''6'')
               else None)
            else None)
         else
           (if CHR ''a'' \<le> character \<and> character \<le> CHR ''h'' then
              (if character = CHR ''a'' then Some (CHR ''c'')
               else if character = CHR ''b'' then Some (CHR ''d'')
               else if character = CHR ''c'' then Some (CHR ''e'')
               else if character = CHR ''d'' then Some (CHR ''f'')
               else if character = CHR ''e'' then Some (CHR ''g'')
               else if character = CHR ''f'' then Some (CHR ''h'')
               else if character = CHR ''g'' then None
               else if character = CHR ''h'' then None
               else None)
            else if CHR ''1'' \<le> character \<and> character \<le> CHR ''8'' then
              (if character = CHR ''1'' then Some (CHR ''3'')
               else if character = CHR ''2'' then Some (CHR ''4'')
               else if character = CHR ''3'' then Some (CHR ''5'')
               else if character = CHR ''4'' then Some (CHR ''6'')
               else if character = CHR ''5'' then Some (CHR ''7'')
               else if character = CHR ''6'' then Some (CHR ''8'')
               else if character = CHR ''7'' then None
               else if character = CHR ''8'' then None
               else None)
            else None)))"

text \<open>
  The end of every branch of \<open>next_position\<close>: \<open>None\<close> when a new character is \<open>None\<close>,
  otherwise the board position stored under the concatenated string.
\<close>

definition lookup_next :: "char option \<Rightarrow> char option \<Rightarrow> exn + square option" where
  "lookup_next new_letter new_num =
     (case new_letter of
        None \<Rightarrow> Inr None
      | Some l \<Rightarrow>
          (case new_num of
             None \<Rightarrow> Inr None
           | Some n \<Rightarrow>
               (case get_board_position [l, n] of
                  Inl e \<Rightarrow> Inl e
                | Inr sq \<Rightarrow> Inr (Some sq))))"

text \<open>Python's \<open>int\<close> on a one-character string.\<close>

definition py_int :: "char \<Rightarrow> exn + int" where
  "py_int c =
     (if CHR ''0'' \<le> c \<and> c \<le> CHR ''9'' then Inr (int (of_char c) - 48) else Inl ValueError)"

text \<open>
  The Knight's branch for one diagonal quadrant: \<open>hdir\<close> and \<open>vdir\<close> are the direction
  arguments passed to \<open>iterate_position_str\<close>, and \<open>sg\<close> is \<open>1\<close> for the two upward
  quadrants (the test is against the destination rank minus one or two) and \<open>-1\<close> for the
  two downward ones (destination rank plus one or two).
\<close>

definition knight_quadrant :: "square \<Rightarrow> square \<Rightarrow> nat \<Rightarrow> nat \<Rightarrow> int \<Rightarrow> exn + square option" where
  "knight_quadrant cur dest hdir vdir sg =
     (case py_int (snd cur) of
        Inl e \<Rightarrow> Inl e
      | Inr c \<Rightarrow>
          (case py_int (snd dest) of
             Inl e \<Rightarrow> Inl e
           | Inr d \<Rightarrow>
               if c = d - sg * 1 then
                 lookup_next (iterate_position_str Knight (fst cur) hdir (Some 2))
                             (iterate_position_str Knight (snd cur) vdir (Some 1))
               else if c = d - sg * 2 then
                 lookup_next (iterate_position_str Knight (fst cur) hdir (Some 1))
                             (iterate_position_str Knight (snd cur) vdir (Some 2))
               else Inr None))"

text \<open>The four orthogonal and four diagonal single steps shared by several piece types.\<close>

definition unit_step :: "piece_type \<Rightarrow> square \<Rightarrow> direction \<Rightarrow> exn + square option" where
  "unit_step t cur d =
     (case d of
        Up \<Rightarrow> lookup_next (Some (fst cur)) (iterate_position_str t (snd cur) 1 None)
      | Down \<Rightarrow> lookup_next (Some (fst cur)) (iterate_position_str t (snd cur) 0 None)
      | ToLeft \<Rightarrow> lookup_next (iterate_position_str t (fst cur) 0 None) (Some (snd cur))
      | ToRight \<Rightarrow> lookup_next (iterate_position_str t (fst cur) 1 None) (Some (snd cur))
      | DiagUpRight \<Rightarrow>
          lookup_next (iterate_position_str t (fst cur) 1 None) (iterate_position_str t (snd cur) 1 None)
      | DiagUpLeft \<Rightarrow>
          lookup_next (iterate_position_str t (fst cur) 0 None) (iterate_position_str t (snd cur) 1 None)
      | DiagDownRight \<Rightarrow>
          lookup_next (iterate_position_str t (fst cur) 1 None) (iterate_position_str t (snd cur) 0 None)
      | DiagDownLeft \<Rightarrow>
          lookup_next (iterate_position_str t (fst cur) 0 None) (iterate_position_str t (snd cur) 0 None))"

text \<open>
  \<open>next_position(board, current_position, direction, destination_position)\<close>, called on a
  piece of type \<open>t\<close> whose owner has colour \<open>c\<close>.
\<close>

definition next_position :: "piece_type \<Rightarrow> color \<Rightarrow> square \<Rightarrow> direction \<Rightarrow> square \<Rightarrow> exn + square option" where
  "next_position t c cur d dest =
     (case t of
        Pawn \<Rightarrow>
          (if c = White then
             (if d = Up \<or> d = DiagUpRight \<or> d = DiagUpLeft then unit_step Pawn cur d else Inr None)
           else
             (if d = Down \<or> d = DiagDownRight \<or> d = DiagDownLeft then unit_step Pawn cur d else Inr None))
      | Bishop \<Rightarrow> (if \<not> diagonal d then Inr None else unit_step Bishop cur d)
      | Knight \<Rightarrow>
          (if \<not> diagonal d then Inr None
           else if d = DiagUpRight then knight_quadrant cur dest 1 1 1
           else if d = DiagUpLeft then knight_quadrant cur dest 0 1 1
           else if d = DiagDownRight then knight_quadrant cur dest 1 0 (- 1)
           else knight_quadrant cur dest 0 0 (- 1))
      | Rook \<Rightarrow> (if diagonal d then Inr None else unit_step Rook cur d)
      | Queen \<Rightarrow> unit_step Queen cur d
      | King \<Rightarrow> unit_step King cur d)"

section \<open>Piece: move\<close>

text \<open>
  The direction of a move, from the comparison of the file characters and of the rank
  characters of the two position strings; \<open>None\<close> stands for the early \<open>return False\<close>
  when the two strings agree in both characters.
\<close>

definition classify :: "square \<Rightarrow> square \<Rightarrow> direction option" where
  "classify starting dest =
     (let horizontal = (if fst starting < fst dest then 1
                        else if fst starting = fst dest then 0 else - 1 :: int);
          vertical = (if snd starting < snd dest then 1
                      else if snd starting = snd dest then 0 else - 1 :: int)
      in if horizontal = 0 \<and> vertical = 0 then None
         else if horizontal = 0 \<and> vertical = 1 then Some Up
         else if horizontal = 0 \<and> vertical = - 1 then Some Down
         else if horizontal = 1 \<and> vertical = 0 then Some ToRight
         else if horizontal = 1 \<and> vertical = 1 then Some DiagUpRight
         else if horizontal = 1 \<and> vertical = - 1 then Some DiagDownRight
         else if horizontal = - 1 \<and> vertical = 0 then Some ToLeft
         else if horizontal = - 1 \<and> vertical = 1 then Some DiagUpLeft
         else Some DiagDownLeft)"

text \<open>The stepper called on the piece at address \<open>p\<close>.\<close>

definition step_of :: "chessvar \<Rightarrow> pid \<Rightarrow> square \<Rightarrow> direction \<Rightarrow> square \<Rightarrow> exn + square option" where
  "step_of g p cur d dest = next_position (ptype (pieces g p)) (owner (pieces g p)) cur d dest"

text \<open>
  The test made on an occupied square, in all branches of \<open>move\<close> alike: legal only on the
  destination, and only when the occupant has another owner.
\<close>

definition occupied_test :: "chessvar \<Rightarrow> pid \<Rightarrow> square \<Rightarrow> pid \<Rightarrow> square \<Rightarrow> bool" where
  "occupied_test g p nxt q dest =
     (if nxt \<noteq> dest then False
      else if owner (pieces g p) = owner (pieces g q) then False
      else True)"

text \<open>A Pawn's diagonal request: one step, which must capture.\<close>

definition pawn_diagonal :: "chessvar \<Rightarrow> pid \<Rightarrow> square \<Rightarrow> direction \<Rightarrow> square \<Rightarrow> exn + bool" where
  "pawn_diagonal g p cur d dest =
     (case step_of g p cur d dest of
        Inl e \<Rightarrow> Inl e
      | Inr None \<Rightarrow> Inr False
      | Inr (Some nxt) \<Rightarrow>
          (case board_state g nxt of
             None \<Rightarrow> Inr False
           | Some q \<Rightarrow> Inr (occupied_test g p nxt q dest)))"

text \<open>
  A Pawn's straight request from its starting rank: \<open>for loop in range(0, 2)\<close>, the list
  argument holding the values of \<open>loop\<close> still to come.
\<close>

fun pawn_straight :: "chessvar \<Rightarrow> pid \<Rightarrow> square \<Rightarrow> direction \<Rightarrow> square \<Rightarrow> nat list \<Rightarrow> exn + bool" where
  "pawn_straight g p cur d dest [] = Inr True"
| "pawn_straight g p cur d dest (loop # rest) =
     (case step_of g p cur d dest of
        Inl e \<Rightarrow> Inl e
      | Inr None \<Rightarrow> Inr False
      | Inr (Some nxt) \<Rightarrow>
          (case board_state g nxt of
             None \<Rightarrow>
               if nxt \<noteq> dest then
                 (if loop = 0 then pawn_straight g p nxt d dest rest else Inr False)
               else Inr True
           | Some q \<Rightarrow> Inr False))"

text \<open>A Pawn away from its starting rank: one step, forward onto an empty square or
  diagonally onto an opposing piece.\<close>

definition pawn_later :: "chessvar \<Rightarrow> pid \<Rightarrow> square \<Rightarrow> direction \<Rightarrow> square \<Rightarrow> exn + bool" where
  "pawn_later g p cur d dest =
     (case step_of g p cur d dest of
        Inl e \<Rightarrow> Inl e
      | Inr None \<Rightarrow> Inr False
      | Inr (Some nxt) \<Rightarrow>
          if diagonal d then
            (case board_state g nxt of
               None \<Rightarrow> Inr False
             | Some q \<Rightarrow> Inr (occupied_test g p nxt q dest))
          else
            (case board_state g nxt of
               None \<Rightarrow> if nxt \<noteq> dest then Inr False else Inr True
             | Some q \<Rightarrow> Inr False))"

text \<open>King and Knight: one call of the stepper, which must land on the destination.\<close>

definition single_step :: "chessvar \<Rightarrow> pid \<Rightarrow> square \<Rightarrow> direction \<Rightarrow> square \<Rightarrow> exn + bool" where
  "single_step g p cur d dest =
     (case step_of g p cur d dest of
        Inl e \<Rightarrow> Inl e
      | Inr None \<Rightarrow> Inr False
      | Inr (Some nxt) \<Rightarrow>
          if nxt \<noteq> dest then Inr False
          else
            (case board_state g nxt of
               None \<Rightarrow> Inr True
             | Some q \<Rightarrow> if owner (pieces g p) = owner (pieces g q) then Inr False else Inr True))"

text \<open>
  Every successful call of the stepper moves strictly along the requested direction, so
  the distance left to the edge of the character range decreases.
\<close>

definition remaining :: "direction \<Rightarrow> square \<Rightarrow> nat" where
  "remaining d cur =
     (case d of
        Up \<Rightarrow> 255 - of_char (snd cur)
      | Down \<Rightarrow> of_char (snd cur)
      | ToLeft \<Rightarrow> of_char (fst cur)
      | ToRight \<Rightarrow> 255 - of_char (fst cur)
      | DiagUpRight \<Rightarrow> 255 - of_char (fst cur)
      | DiagDownRight \<Rightarrow> 255 - of_char (fst cur)
      | DiagUpLeft \<Rightarrow> of_char (fst cur)
      | DiagDownLeft \<Rightarrow> of_char (fst cur))"

lemma iterate_down:
  "iterate_position_str t c 0 dist = Some c' \<Longrightarrow> (of_char c' :: nat) < of_char c"
  unfolding iterate_position_str_def
  by (auto split: if_splits)

lemma iterate_up:
  "0 < dir \<Longrightarrow> iterate_position_str t c dir dist = Some c' \<Longrightarrow> (of_char c :: nat) < of_char c'"
  unfolding iterate_position_str_def
  by (auto split: if_splits)

lemma iterate_up_left:
  "0 < dir \<Longrightarrow> iterate_position_str t c dir dist = Some c'
   \<Longrightarrow> 255 - (of_char c' :: nat) < 255 - of_char c"
  using iterate_up[of dir t c dist c'] nat_of_char_less_256[of c'] by linarith

lemma iterate_up1:
  "iterate_position_str t c (Suc 0) dist = Some c' \<Longrightarrow> 255 - (of_char c' :: nat) < 255 - of_char c"
  by (rule iterate_up_left[of "Suc 0"]) simp_all

lemma grid_mem:
  "s \<in> set (concat (map (\<lambda>f. map (\<lambda>r. [f, r]) rs) fs)) \<longleftrightarrow> (\<exists>f\<in>set fs. \<exists>r\<in>set rs. s = [f, r])"
  by auto

lemma board_keys_iff:
  "s \<in> set board_keys \<longleftrightarrow> (\<exists>f\<in>set ''abcdefgh''. \<exists>r\<in>set ''12345678''. s = [f, r])"
  unfolding board_keys_def by (rule grid_mem)

lemma get_board_position_pair: "get_board_position s = Inr sq \<Longrightarrow> s = [fst sq, snd sq]"
  unfolding get_board_position_def board_keys_iff by (auto split: if_splits)

lemma lookup_next_Some:
  "lookup_next a b = Inr (Some sq) \<Longrightarrow> a = Some (fst sq) \<and> b = Some (snd sq)"
  unfolding lookup_next_def
  by (auto split: option.splits sum.splits dest: get_board_position_pair)

lemma unit_step_progress:
  "unit_step t cur d = Inr (Some nxt) \<Longrightarrow> remaining d nxt < remaining d cur"
  unfolding unit_step_def remaining_def
  by (cases d) (auto dest!: lookup_next_Some dest: iterate_down iterate_up1)

lemma knight_progress:
  "knight_quadrant cur dest hdir vdir sg = Inr (Some nxt) \<Longrightarrow>
   (if hdir = 0 then (of_char (fst nxt)::nat) < of_char (fst cur)
    else 255 - (of_char (fst nxt)::nat) < 255 - of_char (fst cur))"
  unfolding knight_quadrant_def
  by (auto split: sum.splits if_splits dest!: lookup_next_Some dest: iterate_down iterate_up_left)

lemma next_position_progress:
  "next_position t c cur d dest = Inr (Some nxt) \<Longrightarrow> remaining d nxt < remaining d cur"
proof (cases t)
  case Knight
  assume a: "next_position t c cur d dest = Inr (Some nxt)"
  from a Knight show ?thesis
    unfolding next_position_def
    by (cases d) (auto simp: remaining_def dest!: knight_progress)
qed (auto simp: next_position_def split: if_splits dest: unit_step_progress)

text \<open>
  Rook, Bishop and Queen: the \<open>while True\<close> loop that walks the path, \<open>cur\<close> being the
  value of the variable \<open>next_position\<close> on entry to an iteration.
\<close>

function slide :: "chessvar \<Rightarrow> pid \<Rightarrow> square \<Rightarrow> direction \<Rightarrow> square \<Rightarrow> exn + bool" where
  "slide g p cur d dest =
     (case step_of g p cur d dest of
        Inl e \<Rightarrow> Inl e
      | Inr None \<Rightarrow> Inr False
      | Inr (Some nxt) \<Rightarrow>
          (case board_state g nxt of
             None \<Rightarrow> if nxt \<noteq> dest then slide g p nxt d dest else Inr True
           | Some q \<Rightarrow> Inr (occupied_test g p nxt q dest)))"
  by pat_completeness auto
termination
  by (relation "measure (\<lambda>(g, p, cur, d, dest). remaining d cur)")
     (auto simp: step_of_def dest: next_position_progress)

declare slide.simps [simp del]

text \<open>The legality test of \<open>move\<close>, by type of the moving piece.\<close>

definition legal_move :: "chessvar \<Rightarrow> pid \<Rightarrow> square \<Rightarrow> direction \<Rightarrow> square \<Rightarrow> exn + bool" where
  "legal_move g p starting d dest =
     (if ptype (pieces g p) = Pawn then
        (if (snd starting = CHR ''2'' \<and> owner (pieces g p) = White)
            \<or> (snd starting = CHR ''7'' \<and> owner (pieces g p) = Black)
         then (if diagonal d then pawn_diagonal g p starting d dest
               else pawn_straight g p starting d dest [0, 1])
         else pawn_later g p starting d dest)
      else if ptype (pieces g p) = King \<or> ptype (pieces g p) = Knight then
        single_step g p starting d dest
      else slide g p starting d dest)"

text \<open>What \<open>Piece.move\<close> returns: \<open>False\<close>, \<open>True\<close>, or the captured piece.\<close>

datatype move_result = MFalse | MTrue | MPiece pid

text \<open>
  The statements executed once the move is found legal. \<open>list.remove\<close> raises
  \<open>ValueError\<close> when the captured piece is not in its owner's list; by then the board and
  the two pieces have been updated.
\<close>

definition execute_move :: "pid \<Rightarrow> square \<Rightarrow> square \<Rightarrow> chessvar \<Rightarrow> (exn + move_result) \<times> chessvar" where
  "execute_move p starting dest g =
     (let g1 = g\<lparr>board_state := (board_state g)(starting := None)\<rparr>;
          g2 = g1\<lparr>pieces := (pieces g1)(p := (pieces g1 p)\<lparr>position := Some dest\<rparr>)\<rparr>;
          captured_piece = board_state g2 dest;
          g3 = g2\<lparr>board_state := (board_state g2)(dest := Some p)\<rparr>
      in case captured_piece of
           None \<Rightarrow> (Inr MTrue, g3)
         | Some c \<Rightarrow>
             (let g4 = g3\<lparr>pieces := (pieces g3)(c := (pieces g3 c)\<lparr>position := None\<rparr>)\<rparr>;
                  pl = owner (pieces g4 c)
              in if c \<in> set (piece_list g4 pl)
                 then (Inr (MPiece c),
                       g4\<lparr>piece_list := (piece_list g4)(pl := remove1 c (piece_list g4 pl))\<rparr>)
                 else (Inl ValueError, g4)))"

text \<open>
  \<open>move(position, board)\<close> called on the piece at address \<open>p\<close>. A piece whose position
  is \<open>None\<close> has no \<open>get_string\<close>.
\<close>

definition move :: "pid \<Rightarrow> square \<Rightarrow> chessvar \<Rightarrow> (exn + move_result) \<times> chessvar" where
  "move p dest g =
     (case position (pieces g p) of
        None \<Rightarrow> (Inl AttributeError, g)
      | Some starting \<Rightarrow>
          (case classify starting dest of
             None \<Rightarrow> (Inr MFalse, g)
           | Some d \<Rightarrow>
               (case legal_move g p starting d dest of
                  Inl e \<Rightarrow> (Inl e, g)
                | Inr False \<Rightarrow> (Inr MFalse, g)
                | Inr True \<Rightarrow> execute_move p starting dest g)))"

section \<open>ChessVar: make_move\<close>

text \<open>Indexing a string, and Python's short-circuit \<open>or\<close> over tests that may raise.\<close>

definition char_at :: "string \<Rightarrow> nat \<Rightarrow> exn + char" where
  "char_at s i = (if i < length s then Inr (s ! i) else Inl IndexError)"

definition outside :: "string \<Rightarrow> nat \<Rightarrow> char \<Rightarrow> char \<Rightarrow> exn + bool" where
  "outside s i lo hi =
     (case char_at s i of Inl e \<Rightarrow> Inl e | Inr c \<Rightarrow> Inr (c < lo \<or> c > hi))"

definition py_or :: "exn + bool \<Rightarrow> exn + bool \<Rightarrow> exn + bool" where
  "py_or a b = (case a of Inl e \<Rightarrow> Inl e | Inr True \<Rightarrow> Inr True | Inr False \<Rightarrow> b)"

definition off_board :: "string \<Rightarrow> string \<Rightarrow> exn + bool" where
  "off_board string1 string2 =
     py_or (outside string1 0 (CHR ''a'') (CHR ''h''))
       (py_or (outside string2 0 (CHR ''a'') (CHR ''h''))
          (py_or (outside string1 1 (CHR ''1'') (CHR ''8''))
             (outside string2 1 (CHR ''1'') (CHR ''8''))))"

definition flip_turn :: "chessvar \<Rightarrow> chessvar" where
  "flip_turn g = (if turn g = White then g\<lparr>turn := Black\<rparr> else g\<lparr>turn := White\<rparr>)"

text \<open>
  The \<open>for\<close> loop over the captured piece's owner's list: \<open>last_piece\<close> starts \<open>True\<close> and
  is cleared by every piece of the captured type.
\<close>

fun last_piece_loop :: "(pid \<Rightarrow> piece) \<Rightarrow> piece_type \<Rightarrow> pid list \<Rightarrow> bool \<Rightarrow> bool" where
  "last_piece_loop h captured_type [] last_piece = last_piece"
| "last_piece_loop h captured_type (q # qs) last_piece =
     last_piece_loop h captured_type qs
       (if captured_type = ptype (h q) then False else last_piece)"

text \<open>What \<open>make_move\<close> does with the value returned by \<open>move\<close>.\<close>

definition conclude_move :: "(exn + move_result) \<times> chessvar \<Rightarrow> (exn + bool) \<times> chessvar" where
  "conclude_move r =
     (case r of
        (Inl e, g) \<Rightarrow> (Inl e, g)
      | (Inr (MPiece c), g) \<Rightarrow>
          (let last_piece =
                 last_piece_loop (pieces g) (ptype (pieces g c))
                   (piece_list g (owner (pieces g c))) True;
               g1 = (if last_piece
                     then (if turn g = White then g\<lparr>game_state := WHITE_WON\<rparr>
                           else g\<lparr>game_state := BLACK_WON\<rparr>)
                     else g)
           in (Inr True, flip_turn g1))
      | (Inr MTrue, g) \<Rightarrow> (Inr True, flip_turn g)
      | (Inr MFalse, g) \<Rightarrow> (Inl IllegalMoveError, g))"

text \<open>
  \<open>make_move(string1, string2)\<close>: the result is the raised exception or the returned
  value, together with the state the call leaves behind.
\<close>

definition make_move :: "string \<Rightarrow> string \<Rightarrow> chessvar \<Rightarrow> (exn + bool) \<times> chessvar" where
  "make_move string1 string2 g =
     (if game_state g = WHITE_WON \<or> game_state g = BLACK_WON then (Inl GameOverError, g)
      else
        (case off_board string1 string2 of
           Inl e \<Rightarrow> (Inl e, g)
         | Inr True \<Rightarrow> (Inl IllegalMoveError, g)
         | Inr False \<Rightarrow>
             (case get_position_state g string1 of
                Inl e \<Rightarrow> (Inl e, g)
              | Inr None \<Rightarrow> (Inl IllegalMoveError, g)
              | Inr (Some current_piece) \<Rightarrow>
                  if owner (pieces g current_piece) \<noteq> turn g then (Inl MoveOutOfTurnError, g)
                  else
                    (case get_board_position string2 of
                       Inl e \<Rightarrow> (Inl e, g)
                     | Inr dest \<Rightarrow> conclude_move (move current_piece dest g)))))"

section \<open>ChessVar: the initial game\<close>

text \<open>
  The pieces created by the two calls of \<open>Player.__init__\<close>, White's sixteen and then
  Black's sixteen, in the order of the two list displays; a piece's address is its index
  here.
\<close>

definition starting_pieces :: "(piece_type \<times> color \<times> square) list" where
  "starting_pieces =
     [(Pawn, White, (CHR ''a'', CHR ''2'')), (Pawn, White, (CHR ''b'', CHR ''2'')),
      (Pawn, White, (CHR ''c'', CHR ''2'')), (Pawn, White, (CHR ''d'', CHR ''2'')),
      (Pawn, White, (CHR ''e'', CHR ''2'')), (Pawn, White, (CHR ''f'', CHR ''2'')),
      (Pawn, White, (CHR ''g'', CHR ''2'')), (Pawn, White, (CHR ''h'', CHR ''2'')),
      (Rook, White, (CHR ''a'', CHR ''1'')), (Rook, White, (CHR ''h'', CHR ''1'')),
      (Knight, White, (CHR ''b'', CHR ''1'')), (Knight, White, (CHR ''g'', CHR ''1'')),
      (Bishop, White, (CHR ''c'', CHR ''1'')), (Bishop, White, (CHR ''f'', CHR ''1'')),
      (Queen, White, (CHR ''d'', CHR ''1'')), (King, White, (CHR ''e'', CHR ''1'')),
      (Pawn, Black, (CHR ''a'', CHR ''7'')), (Pawn, Black, (CHR ''b'', CHR ''7'')),
      (Pawn, Black, (CHR ''c'', CHR ''7'')), (Pawn, Black, (CHR ''d'', CHR ''7'')),
      (Pawn, Black, (CHR ''e'', CHR ''7'')), (Pawn, Black, (CHR ''f'', CHR ''7'')),
      (Pawn, Black, (CHR ''g'', CHR ''7'')), (Pawn, Black, (CHR ''h'', CHR ''7'')),
      (Rook, Black, (CHR ''a'', CHR ''8'')), (Rook, Black, (CHR ''h'', CHR ''8'')),
      (Knight, Black, (CHR ''b'', CHR ''8'')), (Knight, Black, (CHR ''g'', CHR ''8'')),
      (Bishop, Black, (CHR ''c'', CHR ''8'')), (Bishop, Black, (CHR ''f'', CHR ''8'')),
      (Queen, Black, (CHR ''d'', CHR ''8'')), (King, Black, (CHR ''e'', CHR ''8''))]"

text \<open>
  The state built by \<open>ChessVar.__init__\<close>. Addresses from 32 on hold no object; the cell
  given for them is never referred to by a board position or a piece list.
\<close>

definition init_game :: chessvar where
  "init_game =
     \<lparr>board_state = map_of (zip (map (\<lambda>(t, c, sq). sq) starting_pieces) [0..<32]),
      game_state = UNFINISHED,
      pieces = (\<lambda>i. if i < 32
                     then (case starting_pieces ! i of
                             (t, c, sq) \<Rightarrow> \<lparr>ptype = t, owner = c, position = Some sq\<rparr>)
                     else \<lparr>ptype = Pawn, owner = White, position = None\<rparr>),
      piece_list = (\<lambda>c. if c = White then [0..<16] else [16..<32]),
      turn = White\<rparr>"

section \<open>ChessVar: set_turn\<close>

definition set_turn :: "string \<Rightarrow> chessvar \<Rightarrow> chessvar" where
  "set_turn t g = (if t = ''White'' then g\<lparr>turn := White\<rparr> else g\<lparr>turn := Black\<rparr>)"

section \<open>Notions used in the statements\<close>

text \<open>A square of the board: a file from a to h and a rank from 1 to 8.\<close>

definition on_board :: "square \<Rightarrow> bool" where
  "on_board sq \<longleftrightarrow>
     CHR ''a'' \<le> fst sq \<and> fst sq \<le> CHR ''h'' \<and> CHR ''1'' \<le> snd sq \<and> snd sq \<le> CHR ''8''"

text \<open>
  Three positions of a game played from the start: after 1. e2-e4 d7-d5; after
  2. Bf1-b5 h7-h6 in addition; and after 3. Bb5xe8, which captures Black's King.
\<close>

definition game_e4_d5 :: chessvar where
  "game_e4_d5 = snd (make_move ''d7'' ''d5'' (snd (make_move ''e2'' ''e4'' init_game)))"

definition game_bishop_b5 :: chessvar where
  "game_bishop_b5 = snd (make_move ''h7'' ''h6'' (snd (make_move ''f1'' ''b5'' game_e4_d5)))"

definition game_white_won :: chessvar where
  "game_white_won = snd (make_move ''b5'' ''e8'' game_bishop_b5)"

text \<open>The position after 1. e2-e4 d7-d5 2. Bf1-a6, where Black's b-pawn can capture.\<close>

definition game_bishop_a6 :: chessvar where
  "game_bishop_a6 = snd (make_move ''f1'' ''a6'' game_e4_d5)"

text \<open>Neighbouring files: \<open>f'\<close> is the file to the right of \<open>f\<close> (from a-b up to g-h).\<close>

definition next_file :: "char \<Rightarrow> char \<Rightarrow> bool" where
  "next_file f f' \<longleftrightarrow> (f, f') \<in> set (zip ''abcdefg'' ''bcdefgh'')"

text \<open>
  Square-piece consistency: the piece a board position holds records that position as its
  own.
\<close>

definition consistent :: "chessvar \<Rightarrow> bool" where
  "consistent g \<longleftrightarrow> (\<forall>sq p. board_state g sq = Some p \<longrightarrow> position (pieces g p) = Some sq)"

text \<open>No piece is listed twice in a player's \<open>piece_list\<close>.\<close>

definition rosters_distinct :: "chessvar \<Rightarrow> bool" where
  "rosters_distinct g \<longleftrightarrow> distinct (piece_list g White) \<and> distinct (piece_list g Black)"

text \<open>
  The states a \<open>ChessVar\<close> object can be in: the one built by \<open>__init__\<close>, and whatever the
  two mutating methods leave behind, whether they return or raise.
\<close>

inductive reachable :: "chessvar \<Rightarrow> bool" where
  start: "reachable init_game"
| moved: "reachable g \<Longrightarrow> reachable (snd (make_move string1 string2 g))"
| turn_set: "reachable g \<Longrightarrow> reachable (set_turn t g)"



section \<open>How a call of make_move proceeds\<close>

lemma classify_None_iff: "classify a b = None \<longleftrightarrow> a = b"
  unfolding classify_def Let_def
  by (auto simp: prod_eq_iff split: if_splits)

lemma execute_move_fst:
  "fst (execute_move p starting dest g) = Inr MTrue
   \<or> fst (execute_move p starting dest g) = Inl ValueError
   \<or> (\<exists>c. fst (execute_move p starting dest g) = Inr (MPiece c))"
  unfolding execute_move_def Let_def
  by (simp split: option.splits)

lemma move_cases:
  "(snd (move p dest g) = g \<and> (fst (move p dest g) = Inr MFalse \<or> (\<exists>e. fst (move p dest g) = Inl e)))
   \<or> (\<exists>starting d. position (pieces g p) = Some starting \<and> classify starting dest = Some d
        \<and> legal_move g p starting d dest = Inr True
        \<and> move p dest g = execute_move p starting dest g)"
  unfolding move_def
  by (simp split: option.splits sum.splits bool.splits)

lemma conclude_move_execute:
  "fst (conclude_move (execute_move p starting dest g)) = Inr True
   \<or> fst (conclude_move (execute_move p starting dest g)) = Inl ValueError"
proof -
  obtain r g' where e: "execute_move p starting dest g = (r, g')" by (cases "execute_move p starting dest g")
  with execute_move_fst[of p starting dest g]
  have "r = Inr MTrue \<or> r = Inl ValueError \<or> (\<exists>c. r = Inr (MPiece c))" by simp
  thus ?thesis unfolding e conclude_move_def Let_def by auto
qed

lemma conclude_move_unchanged:
  "snd r = g \<Longrightarrow> fst r = Inr MFalse \<or> (\<exists>e. fst r = Inl e) \<Longrightarrow>
   snd (conclude_move r) = g \<and> (\<exists>e. fst (conclude_move r) = Inl e)"
  unfolding conclude_move_def
  by (cases r) auto

lemma state_cases: "game_state g \<noteq> WHITE_WON \<Longrightarrow> game_state g \<noteq> BLACK_WON \<Longrightarrow> game_state g = UNFINISHED"
  by (cases "game_state g") auto

lemma make_move_cases:
  "(snd (make_move s1 s2 g) = g \<and> (\<exists>e. fst (make_move s1 s2 g) = Inl e))
   \<or> (\<exists>src p starting dest d.
        game_state g = UNFINISHED
        \<and> off_board s1 s2 = Inr False
        \<and> get_board_position s1 = Inr src \<and> board_state g src = Some p
        \<and> owner (pieces g p) = turn g
        \<and> get_board_position s2 = Inr dest
        \<and> position (pieces g p) = Some starting \<and> classify starting dest = Some d
        \<and> legal_move g p starting d dest = Inr True
        \<and> make_move s1 s2 g = conclude_move (execute_move p starting dest g))"
  (is "?same \<or> ?moved")
proof (cases "game_state g = WHITE_WON \<or> game_state g = BLACK_WON")
  case True
  then show ?thesis by (simp add: make_move_def)
next
  case over: False
  hence unf: "game_state g = UNFINISHED" using state_cases by blast
  show ?thesis
  proof (cases "off_board s1 s2")
    case (Inl e)
    with over show ?thesis by (simp add: make_move_def)
  next
    case (Inr b)
    show ?thesis
    proof (cases b)
      case True
      with over Inr show ?thesis by (simp add: make_move_def)
    next
      case False
      with Inr have off: "off_board s1 s2 = Inr False" by simp
      show ?thesis
      proof (cases "get_board_position s1")
        case (Inl e)
        with over off show ?thesis by (simp add: make_move_def get_position_state_def)
      next
        case src: (Inr src)
        show ?thesis
        proof (cases "board_state g src")
          case None
          with over off src show ?thesis by (simp add: make_move_def get_position_state_def)
        next
          case (Some p)
          show ?thesis
          proof (cases "owner (pieces g p) = turn g")
            case False
            with over off src Some show ?thesis by (simp add: make_move_def get_position_state_def)
          next
            case own: True
            show ?thesis
            proof (cases "get_board_position s2")
              case (Inl e)
              with over off src Some own show ?thesis
                by (simp add: make_move_def get_position_state_def)
            next
              case dest: (Inr dest)
              have mm: "make_move s1 s2 g = conclude_move (move p dest g)"
                using over off src Some own dest
                by (simp add: make_move_def get_position_state_def)
              from move_cases[of p dest g] show ?thesis
              proof
                assume a: "snd (move p dest g) = g \<and>
                  (fst (move p dest g) = Inr MFalse \<or> (\<exists>e. fst (move p dest g) = Inl e))"
                hence ?same unfolding mm using conclude_move_unchanged[of "move p dest g" g] by blast
                thus ?thesis ..
              next
                assume "\<exists>starting d. position (pieces g p) = Some starting \<and>
                  classify starting dest = Some d \<and> legal_move g p starting d dest = Inr True \<and>
                  move p dest g = execute_move p starting dest g"
                then obtain starting d where
                  "position (pieces g p) = Some starting" "classify starting dest = Some d"
                  "legal_move g p starting d dest = Inr True"
                  "move p dest g = execute_move p starting dest g" by blast
                with unf off src Some own dest mm have ?moved by fastforce
                thus ?thesis ..
              qed
            qed
          qed
        qed
      qed
    qed
  qed
qed

lemma char_eq_code: "(of_char c :: nat) = of_char d \<Longrightarrow> c = d"
  by simp

lemma file_between: 
  assumes "CHR ''a'' \<le> f" "f \<le> CHR ''h''" shows "f \<in> set ''abcdefgh''"
proof -
  let ?n = "of_char f :: nat"
  have "97 \<le> ?n" "?n \<le> 104" using assms by (simp_all add: less_eq_char_def)
  hence "?n = 97 \<or> ?n = 98 \<or> ?n = 99 \<or> ?n = 100 \<or> ?n = 101 \<or> ?n = 102 \<or> ?n = 103 \<or> ?n = 104"
    by arith
  hence "?n = of_char CHR ''a'' \<or> ?n = of_char CHR ''b'' \<or> ?n = of_char CHR ''c''
      \<or> ?n = of_char CHR ''d'' \<or> ?n = of_char CHR ''e'' \<or> ?n = of_char CHR ''f''
      \<or> ?n = of_char CHR ''g'' \<or> ?n = of_char CHR ''h''"
    by simp
  hence "f = CHR ''a'' \<or> f = CHR ''b'' \<or> f = CHR ''c'' \<or> f = CHR ''d''
      \<or> f = CHR ''e'' \<or> f = CHR ''f'' \<or> f = CHR ''g'' \<or> f = CHR ''h''"
    by (blast dest: char_eq_code)
  thus ?thesis by simp
qed

lemma rank_between: 
  assumes "CHR ''1'' \<le> r" "r \<le> CHR ''8''" shows "r \<in> set ''12345678''"
proof -
  let ?n = "of_char r :: nat"
  have "49 \<le> ?n" "?n \<le> 56" using assms by (simp_all add: less_eq_char_def)
  hence "?n = 49 \<or> ?n = 50 \<or> ?n = 51 \<or> ?n = 52 \<or> ?n = 53 \<or> ?n = 54 \<or> ?n = 55 \<or> ?n = 56"
    by arith
  hence "?n = of_char CHR ''1'' \<or> ?n = of_char CHR ''2'' \<or> ?n = of_char CHR ''3''
      \<or> ?n = of_char CHR ''4'' \<or> ?n = of_char CHR ''5'' \<or> ?n = of_char CHR ''6''
      \<or> ?n = of_char CHR ''7'' \<or> ?n = of_char CHR ''8''"
    by simp
  hence "r = CHR ''1'' \<or> r = CHR ''2'' \<or> r = CHR ''3'' \<or> r = CHR ''4''
      \<or> r = CHR ''5'' \<or> r = CHR ''6'' \<or> r = CHR ''7'' \<or> r = CHR ''8''"
    by (blast dest: char_eq_code)
  thus ?thesis by simp
qed

lemma on_board_iff: "on_board sq \<longleftrightarrow> fst sq \<in> set ''abcdefgh'' \<and> snd sq \<in> set ''12345678''"
proof
  assume "on_board sq"
  thus "fst sq \<in> set ''abcdefgh'' \<and> snd sq \<in> set ''12345678''"
    unfolding on_board_def using file_between rank_between by blast
next
  assume "fst sq \<in> set ''abcdefgh'' \<and> snd sq \<in> set ''12345678''"
  thus "on_board sq" unfolding on_board_def by auto
qed

lemma get_board_position_on_board:
  "get_board_position [f, r] = (if on_board (f, r) then Inr (f, r) else Inl KeyError)"
  unfolding get_board_position_def board_keys_iff on_board_iff by auto

lemma off_board_two:
  "off_board (f1 # r1 # x1) (f2 # r2 # x2) = Inr (\<not> (on_board (f1, r1) \<and> on_board (f2, r2)))"
  unfolding off_board_def outside_def char_at_def py_or_def on_board_def
  by (auto split: bool.splits)

lemma make_move_over:
  "game_state g \<noteq> UNFINISHED \<Longrightarrow> make_move string1 string2 g = (Inl GameOverError, g)"
  by (cases "game_state g") (simp_all add: make_move_def)

lemma make_move_unfinished:
  "game_state g = UNFINISHED \<Longrightarrow>
   make_move (f1 # r1 # x1) (f2 # r2 # x2) g =
     (if \<not> (on_board (f1, r1) \<and> on_board (f2, r2)) then (Inl IllegalMoveError, g)
      else case get_position_state g (f1 # r1 # x1) of
             Inl e \<Rightarrow> (Inl e, g)
           | Inr None \<Rightarrow> (Inl IllegalMoveError, g)
           | Inr (Some current_piece) \<Rightarrow>
               if owner (pieces g current_piece) \<noteq> turn g then (Inl MoveOutOfTurnError, g)
               else (case get_board_position (f2 # r2 # x2) of
                       Inl e \<Rightarrow> (Inl e, g)
                     | Inr dest \<Rightarrow> conclude_move (move current_piece dest g)))"
  by (simp add: make_move_def off_board_two)

lemma execute_move_board:
  "board_state (snd (execute_move p s d g)) = (board_state g)(s := None, d := Some p)"
  by (simp add: execute_move_def Let_def split: option.splits)

lemma execute_move_position:
  "s \<noteq> d \<Longrightarrow> position (pieces (snd (execute_move p s d g)) q) =
     (if board_state g d = Some q then None else if q = p then Some d else position (pieces g q))"
  by (auto simp add: execute_move_def Let_def split: option.splits)

lemma execute_move_static:
  "ptype (pieces (snd (execute_move p s d g)) q) = ptype (pieces g q)"
  "owner (pieces (snd (execute_move p s d g)) q) = owner (pieces g q)"
  "game_state (snd (execute_move p s d g)) = game_state g"
  "turn (snd (execute_move p s d g)) = turn g"
  by (auto simp add: execute_move_def Let_def split: option.splits)

lemma execute_move_no_capture:
  "s \<noteq> d \<Longrightarrow> board_state g d = None \<Longrightarrow>
   fst (execute_move p s d g) = Inr MTrue \<and> piece_list (snd (execute_move p s d g)) = piece_list g"
  by (simp add: execute_move_def Let_def)

lemma execute_move_capture:
  "s \<noteq> d \<Longrightarrow> board_state g d = Some c \<Longrightarrow>
   fst (execute_move p s d g) = (if c \<in> set (piece_list g (owner (pieces g c))) then Inr (MPiece c) else Inl ValueError)
   \<and> piece_list (snd (execute_move p s d g)) =
       (if c \<in> set (piece_list g (owner (pieces g c)))
        then (piece_list g)(owner (pieces g c) := remove1 c (piece_list g (owner (pieces g c))))
        else piece_list g)"
  by (simp add: execute_move_def Let_def)

lemma last_piece_loop_False: "last_piece_loop h t qs False = False"
  by (induction qs) auto

lemma last_piece_loop_iff:
  "last_piece_loop h t qs True \<longleftrightarrow> (\<forall>q\<in>set qs. ptype (h q) \<noteq> t)"
  by (induction qs) (auto simp: last_piece_loop_False)

lemma conclude_move_fields:
  "turn (snd (conclude_move (Inr (MPiece c), g))) = (if turn g = White then Black else White)"
  "turn (snd (conclude_move (Inr MTrue, g))) = (if turn g = White then Black else White)"
  "board_state (snd (conclude_move (r, g))) = board_state g"
  "pieces (snd (conclude_move (r, g))) = pieces g"
  "piece_list (snd (conclude_move (r, g))) = piece_list g"
  "game_state (snd (conclude_move (Inr MTrue, g))) = game_state g"
  "game_state (snd (conclude_move (Inr (MPiece c), g))) =
     (if \<forall>q\<in>set (piece_list g (owner (pieces g c))). ptype (pieces g q) \<noteq> ptype (pieces g c)
      then (if turn g = White then WHITE_WON else BLACK_WON) else game_state g)"
  "fst (conclude_move (Inr (MPiece c), g)) = Inr True"
  by (auto simp add: conclude_move_def Let_def flip_turn_def last_piece_loop_iff
      split: sum.splits move_result.splits)

lemma occupied_test_opponent:
  "occupied_test g p nxt q dest \<Longrightarrow> nxt = dest \<and> owner (pieces g q) \<noteq> owner (pieces g p)"
  by (auto simp: occupied_test_def split: if_splits)

lemma slide_capture_opponent:
  "slide g p cur d dest = Inr True \<Longrightarrow> board_state g dest = Some c
   \<Longrightarrow> owner (pieces g c) \<noteq> owner (pieces g p)"
proof (induction g p cur d dest rule: slide.induct)
  case (1 g p cur d dest)
  from "1.prems"(1) show ?case
    apply (subst (asm) slide.simps)
    using "1.IH" "1.prems"(2)
    by (auto split: sum.splits option.splits if_splits dest: occupied_test_opponent)
qed

lemma pawn_straight_empty:
  "pawn_straight g p cur d dest [0, 1] = Inr True \<Longrightarrow> board_state g dest = None"
  by (auto split: sum.splits option.splits if_splits)

lemma legal_capture_opponent:
  assumes "legal_move g p starting d dest = Inr True" and "board_state g dest = Some c"
  shows "owner (pieces g c) \<noteq> owner (pieces g p)"
proof (cases "ptype (pieces g p) = Pawn")
  case True
  with assms show ?thesis
    unfolding legal_move_def pawn_diagonal_def pawn_later_def
    by (auto split: if_splits sum.splits option.splits
        dest: occupied_test_opponent pawn_straight_empty)
next
  case False
  with assms show ?thesis
    unfolding legal_move_def single_step_def
    by (auto split: if_splits sum.splits option.splits dest: slide_capture_opponent)
qed

section \<open>Invariants of reachable games\<close>

lemma map_of_zip_upt:
  "map_of (zip xs [0..<length xs]) k = Some i \<Longrightarrow> i < length xs \<and> xs ! i = k"
proof -
  assume "map_of (zip xs [0..<length xs]) k = Some i"
  hence "(k, i) \<in> set (zip xs [0..<length xs])" by (rule map_of_SomeD)
  then obtain j where "j < length xs" "xs ! j = k" "[0..<length xs] ! j = i"
    by (auto simp: set_zip)
  thus ?thesis by simp
qed

lemma length_starting_pieces: "length starting_pieces = 32"
  by (simp add: starting_pieces_def)

lemma consistent_init: "consistent init_game"
proof -
  have "position (pieces init_game p) = Some sq"
    if "board_state init_game sq = Some p" for sq p
  proof -
    let ?xs = "map (\<lambda>(t, c, sq). sq) starting_pieces"
    have "map_of (zip ?xs [0..<length ?xs]) sq = Some p"
      using that by (simp add: init_game_def length_starting_pieces)
    hence "p < length ?xs \<and> ?xs ! p = sq" by (rule map_of_zip_upt)
    hence lt: "p < length starting_pieces" and nth: "?xs ! p = sq" by simp_all
    from lt have "?xs ! p = (case starting_pieces ! p of (t, c, sq) \<Rightarrow> sq)"
      by (rule nth_map)
    with nth lt show ?thesis
      by (simp add: init_game_def length_starting_pieces split: prod.splits)
  qed
  thus ?thesis unfolding consistent_def by blast
qed

lemma rosters_distinct_init: "rosters_distinct init_game"
  by (simp add: rosters_distinct_def init_game_def)

lemma consistent_execute:
  assumes "consistent g" and "position (pieces g p) = Some s" and "s \<noteq> d"
  shows "consistent (snd (execute_move p s d g))"
  unfolding consistent_def
proof (intro allI impI)
  fix sq q
  assume b: "board_state (snd (execute_move p s d g)) sq = Some q"
  show "position (pieces (snd (execute_move p s d g)) q) = Some sq"
  proof (cases "sq = d")
    case True
    with b have "q = p" by (simp add: execute_move_board)
    moreover have "board_state g d \<noteq> Some p"
    proof
      assume "board_state g d = Some p"
      with assms(1) have "position (pieces g p) = Some d" unfolding consistent_def by blast
      with assms(2,3) show False by simp
    qed
    ultimately show ?thesis using True assms(3) by (simp add: execute_move_position)
  next
    case False
    with b have old: "board_state g sq = Some q" and "sq \<noteq> s"
      by (auto simp: execute_move_board split: if_splits)
    hence pos: "position (pieces g q) = Some sq" using assms(1) unfolding consistent_def by blast
    with \<open>sq \<noteq> s\<close> assms(2) have "q \<noteq> p" by auto
    moreover have "board_state g d \<noteq> Some q"
    proof
      assume "board_state g d = Some q"
      with assms(1) have "position (pieces g q) = Some d" unfolding consistent_def by blast
      with pos False show False by simp
    qed
    ultimately show ?thesis using pos assms(3) by (simp add: execute_move_position)
  qed
qed

lemma rosters_distinct_execute:
  "rosters_distinct g \<Longrightarrow> s \<noteq> d \<Longrightarrow> rosters_distinct (snd (execute_move p s d g))"
  by (cases "board_state g d")
     (auto simp: rosters_distinct_def execute_move_no_capture execute_move_capture)

lemma conclude_move_consistent:
  "consistent (snd (conclude_move r)) = consistent (snd r)"
  by (cases r) (simp add: consistent_def conclude_move_fields)

lemma conclude_move_rosters:
  "rosters_distinct (snd (conclude_move r)) = rosters_distinct (snd r)"
  by (cases r) (simp add: rosters_distinct_def conclude_move_fields)

lemma make_move_invariant:
  assumes "consistent g" and "rosters_distinct g"
  shows "consistent (snd (make_move string1 string2 g))
         \<and> rosters_distinct (snd (make_move string1 string2 g))"
proof -
  from make_move_cases[of string1 string2 g] show ?thesis
  proof
    assume "snd (make_move string1 string2 g) = g \<and> (\<exists>e. fst (make_move string1 string2 g) = Inl e)"
    with assms show ?thesis by simp
  next
    assume "\<exists>src p starting dest d.
        game_state g = UNFINISHED
        \<and> off_board string1 string2 = Inr False
        \<and> get_board_position string1 = Inr src \<and> board_state g src = Some p
        \<and> owner (pieces g p) = turn g
        \<and> get_board_position string2 = Inr dest
        \<and> position (pieces g p) = Some starting \<and> classify starting dest = Some d
        \<and> legal_move g p starting d dest = Inr True
        \<and> make_move string1 string2 g = conclude_move (execute_move p starting dest g)"
    then obtain p starting dest d where
      pos: "position (pieces g p) = Some starting" and
      cl: "classify starting dest = Some d" and
      mm: "make_move string1 string2 g = conclude_move (execute_move p starting dest g)"
      by blast
    from cl have ne: "starting \<noteq> dest" using classify_None_iff[of starting dest] by auto
    show ?thesis unfolding mm conclude_move_consistent conclude_move_rosters
      using consistent_execute[OF assms(1) pos ne] rosters_distinct_execute[OF assms(2) ne]
      by simp
  qed
qed

lemma reachable_invariant: "reachable g \<Longrightarrow> consistent g \<and> rosters_distinct g"
proof (induction rule: reachable.induct)
  case start
  show ?case using consistent_init rosters_distinct_init by simp
next
  case (moved g string1 string2)
  thus ?case using make_move_invariant by blast
next
  case (turn_set g t)
  thus ?case by (simp add: consistent_def rosters_distinct_def set_turn_def)
qed

lemma make_move_capture:
  assumes "fst (make_move string1 string2 g) = Inr b"
    and "get_board_position string2 = Inr dest"
    and "board_state g dest = Some c"
  shows "\<exists>p starting. starting \<noteq> dest \<and> game_state g = UNFINISHED
           \<and> owner (pieces g c) \<noteq> turn g
           \<and> c \<in> set (piece_list g (owner (pieces g c)))
           \<and> make_move string1 string2 g = conclude_move (execute_move p starting dest g)"
proof -
  from make_move_cases[of string1 string2 g] assms(1)
  obtain p starting dest' d where
    unf: "game_state g = UNFINISHED" and
    own: "owner (pieces g p) = turn g" and
    dest': "get_board_position string2 = Inr dest'" and
    cl: "classify starting dest' = Some d" and
    legal: "legal_move g p starting d dest' = Inr True" and
    mm: "make_move string1 string2 g = conclude_move (execute_move p starting dest' g)"
    by auto
  from dest' assms(2) have deq [simp]: "dest' = dest" by simp
  from cl have ne: "starting \<noteq> dest" using classify_None_iff[of starting dest] by auto
  from legal_capture_opponent[OF legal[simplified] assms(3)] own
  have opp: "owner (pieces g c) \<noteq> turn g" by simp
  have "c \<in> set (piece_list g (owner (pieces g c)))"
  proof (rule ccontr)
    assume "c \<notin> set (piece_list g (owner (pieces g c)))"
    with execute_move_capture[OF ne assms(3), of p]
    have "fst (execute_move p starting dest g) = Inl ValueError" by simp
    hence "fst (conclude_move (execute_move p starting dest g)) = Inl ValueError"
      by (cases "execute_move p starting dest g") (simp add: conclude_move_def)
    with mm assms(1) show False by simp
  qed
  with ne unf opp mm[unfolded deq] show ?thesis by blast
qed

lemma capture_result:
  fixes p :: pid and starting dest :: square and g :: chessvar and c :: pid
  assumes "starting \<noteq> dest" and "board_state g dest = Some c"
    and "c \<in> set (piece_list g (owner (pieces g c)))"
  defines "g' \<equiv> snd (conclude_move (execute_move p starting dest g))"
  shows "turn g' = (if turn g = White then Black else White)"
    and "piece_list g' (owner (pieces g c)) = remove1 c (piece_list g (owner (pieces g c)))"
    and "ptype (pieces g' q) = ptype (pieces g q)"
    and "position (pieces g' c) = None"
    and "game_state g' =
          (if \<forall>q\<in>set (remove1 c (piece_list g (owner (pieces g c)))).
                ptype (pieces g q) \<noteq> ptype (pieces g c)
           then (if turn g = White then WHITE_WON else BLACK_WON) else game_state g)"
proof -
  obtain g1 where e: "execute_move p starting dest g = (Inr (MPiece c), g1)"
    using execute_move_capture[OF assms(1,2), of p] assms(3)
    by (cases "execute_move p starting dest g") simp
  have g1: "g1 = snd (execute_move p starting dest g)" using e by simp
  have pl: "piece_list g1 = (piece_list g)(owner (pieces g c) := remove1 c (piece_list g (owner (pieces g c))))"
    unfolding g1 using execute_move_capture[OF assms(1,2), of p] assms(3) by simp
  have st: "\<And>q. ptype (pieces g1 q) = ptype (pieces g q)" "\<And>q. owner (pieces g1 q) = owner (pieces g q)"
    "game_state g1 = game_state g" "turn g1 = turn g"
    unfolding g1 by (simp_all add: execute_move_static)
  have pos: "position (pieces g1 c) = None"
    unfolding g1 using assms(1,2) by (simp add: execute_move_position)
  show "turn g' = (if turn g = White then Black else White)"
    unfolding g'_def e by (simp add: conclude_move_fields st)
  show "piece_list g' (owner (pieces g c)) = remove1 c (piece_list g (owner (pieces g c)))"
    unfolding g'_def e by (simp add: conclude_move_fields pl)
  show "ptype (pieces g' q) = ptype (pieces g q)"
    unfolding g'_def e by (simp add: conclude_move_fields st)
  show "position (pieces g' c) = None"
    unfolding g'_def e by (simp add: conclude_move_fields pos)
  show "game_state g' =
          (if \<forall>q\<in>set (remove1 c (piece_list g (owner (pieces g c)))).
                ptype (pieces g q) \<noteq> ptype (pieces g c)
           then (if turn g = White then WHITE_WON else BLACK_WON) else game_state g)"
    unfolding g'_def e by (simp add: conclude_move_fields st pl)
qed

lemma reachable_game_e4_d5: "reachable game_e4_d5"
  unfolding game_e4_d5_def by (intro reachable.moved reachable.start)

lemma reachable_game_bishop_b5: "reachable game_bishop_b5"
  unfolding game_bishop_b5_def by (intro reachable.moved reachable_game_e4_d5)

section \<open>Stepping on the board and the sliding loop\<close>



lemma lookup_next_on_board:
  "on_board (l, n) \<Longrightarrow> lookup_next (Some l) (Some n) = Inr (Some (l, n))"
  by (simp add: lookup_next_def get_board_position_on_board)







section \<open>Pawn steps from the starting rank\<close>

lemma next_file_cases:
  "next_file f f' \<longleftrightarrow>
     f = CHR ''a'' \<and> f' = CHR ''b'' \<or> f = CHR ''b'' \<and> f' = CHR ''c''
     \<or> f = CHR ''c'' \<and> f' = CHR ''d'' \<or> f = CHR ''d'' \<and> f' = CHR ''e''
     \<or> f = CHR ''e'' \<and> f' = CHR ''f'' \<or> f = CHR ''f'' \<and> f' = CHR ''g''
     \<or> f = CHR ''g'' \<and> f' = CHR ''h''"
  unfolding next_file_def by simp

lemma next_file_less: "next_file f f' \<Longrightarrow> f < f'"
  unfolding next_file_cases by (elim disjE conjE) simp_all

lemma next_file_on_board:
  "next_file f f' \<Longrightarrow> r \<in> set ''12345678'' \<Longrightarrow> on_board (f, r) \<and> on_board (f', r)"
  unfolding next_file_cases on_board_iff by (elim disjE conjE) simp_all

lemma pawn_iterate_right:
  "next_file f f' \<Longrightarrow> iterate_position_str Pawn f (Suc 0) None = Some f'"
  unfolding next_file_cases by (elim disjE conjE) (simp_all add: iterate_position_str_def)

lemma pawn_iterate_left: "next_file f' f \<Longrightarrow> iterate_position_str Pawn f 0 None = Some f'"
  unfolding next_file_cases by (elim disjE conjE) (simp_all add: iterate_position_str_def)

lemma pawn_forward_step:
  assumes "f \<in> set ''abcdefgh''"
  shows "next_position Pawn White (f, CHR ''2'') Up dest = Inr (Some (f, CHR ''3''))"
    and "next_position Pawn White (f, CHR ''3'') Up dest = Inr (Some (f, CHR ''4''))"
    and "next_position Pawn Black (f, CHR ''7'') Down dest = Inr (Some (f, CHR ''6''))"
    and "next_position Pawn Black (f, CHR ''6'') Down dest = Inr (Some (f, CHR ''5''))"
proof -
  have r: "iterate_position_str Pawn (CHR ''2'') 1 None = Some (CHR ''3'')"
    "iterate_position_str Pawn (CHR ''3'') 1 None = Some (CHR ''4'')"
    "iterate_position_str Pawn (CHR ''7'') 0 None = Some (CHR ''6'')"
    "iterate_position_str Pawn (CHR ''6'') 0 None = Some (CHR ''5'')"
    by (simp_all add: iterate_position_str_def)
  have b: "on_board (f, CHR ''3'')" "on_board (f, CHR ''4'')"
    "on_board (f, CHR ''6'')" "on_board (f, CHR ''5'')"
    using assms by (simp_all add: on_board_iff)
  show "next_position Pawn White (f, CHR ''2'') Up dest = Inr (Some (f, CHR ''3''))"
    "next_position Pawn White (f, CHR ''3'') Up dest = Inr (Some (f, CHR ''4''))"
    "next_position Pawn Black (f, CHR ''7'') Down dest = Inr (Some (f, CHR ''6''))"
    "next_position Pawn Black (f, CHR ''6'') Down dest = Inr (Some (f, CHR ''5''))"
    using r b by (simp_all add: next_position_def unit_step_def lookup_next_on_board)
qed

lemma pawn_diagonal_step:
  shows "next_file f f' \<Longrightarrow>
           next_position Pawn White (f, CHR ''2'') DiagUpRight dest = Inr (Some (f', CHR ''3''))"
    and "next_file f' f \<Longrightarrow>
           next_position Pawn White (f, CHR ''2'') DiagUpLeft dest = Inr (Some (f', CHR ''3''))"
    and "next_file f f' \<Longrightarrow>
           next_position Pawn Black (f, CHR ''7'') DiagDownRight dest = Inr (Some (f', CHR ''6''))"
    and "next_file f' f \<Longrightarrow>
           next_position Pawn Black (f, CHR ''7'') DiagDownLeft dest = Inr (Some (f', CHR ''6''))"
proof -
  have r: "iterate_position_str Pawn (CHR ''2'') 1 None = Some (CHR ''3'')"
    "iterate_position_str Pawn (CHR ''7'') 0 None = Some (CHR ''6'')"
    by (simp_all add: iterate_position_str_def)
  have m: "CHR ''3'' \<in> set ''12345678''" "CHR ''6'' \<in> set ''12345678''" by simp_all
  show "next_file f f' \<Longrightarrow>
           next_position Pawn White (f, CHR ''2'') DiagUpRight dest = Inr (Some (f', CHR ''3''))"
    using r next_file_on_board[OF _ m(1), of f f']
    by (simp add: next_position_def unit_step_def lookup_next_on_board pawn_iterate_right)
  show "next_file f' f \<Longrightarrow>
           next_position Pawn White (f, CHR ''2'') DiagUpLeft dest = Inr (Some (f', CHR ''3''))"
    using r next_file_on_board[OF _ m(1), of f' f]
    by (simp add: next_position_def unit_step_def lookup_next_on_board pawn_iterate_left)
  show "next_file f f' \<Longrightarrow>
           next_position Pawn Black (f, CHR ''7'') DiagDownRight dest = Inr (Some (f', CHR ''6''))"
    using r next_file_on_board[OF _ m(2), of f f']
    by (simp add: next_position_def unit_step_def lookup_next_on_board pawn_iterate_right)
  show "next_file f' f \<Longrightarrow>
           next_position Pawn Black (f, CHR ''7'') DiagDownLeft dest = Inr (Some (f', CHR ''6''))"
    using r next_file_on_board[OF _ m(2), of f' f]
    by (simp add: next_position_def unit_step_def lookup_next_on_board pawn_iterate_left)
qed

section \<open>The order of the checks on two-character coordinates\<close>

text \<open>
  When both coordinate strings have exactly two characters (for the range test: at least
  two), the checks of \<open>make_move\<close> run in this order: a game that is no longer
  unfinished raises \<open>GameOverError\<close> whatever the arguments are; then a coordinate outside
  a1..h8 raises \<open>IllegalMoveError\<close>; then an empty origin raises \<open>IllegalMoveError\<close>;
  then a piece at the origin that does not belong to the player to move raises
  \<open>MoveOutOfTurnError\<close>; and only then is \<open>Piece.move\<close> called and its result acted on.
\<close>

lemma validation_order_two_characters:
  "(game_state g \<noteq> UNFINISHED \<longrightarrow> make_move string1 string2 g = (Inl GameOverError, g))
   \<and> (game_state g = UNFINISHED \<and> \<not> (on_board (f1, r1) \<and> on_board (f2, r2))
        \<longrightarrow> make_move (f1 # r1 # x1) (f2 # r2 # x2) g = (Inl IllegalMoveError, g))
   \<and> (game_state g = UNFINISHED \<and> on_board (f1, r1) \<and> on_board (f2, r2)
        \<and> board_state g (f1, r1) = None
        \<longrightarrow> make_move [f1, r1] [f2, r2] g = (Inl IllegalMoveError, g))
   \<and> (game_state g = UNFINISHED \<and> on_board (f1, r1) \<and> on_board (f2, r2)
        \<and> board_state g (f1, r1) = Some p \<and> owner (pieces g p) \<noteq> turn g
        \<longrightarrow> make_move [f1, r1] [f2, r2] g = (Inl MoveOutOfTurnError, g))
   \<and> (game_state g = UNFINISHED \<and> on_board (f1, r1) \<and> on_board (f2, r2)
        \<and> board_state g (f1, r1) = Some p \<and> owner (pieces g p) = turn g
        \<longrightarrow> make_move [f1, r1] [f2, r2] g = conclude_move (move p (f2, r2) g))"
  by (simp add: make_move_over make_move_unfinished get_position_state_def
        get_board_position_on_board)

lemma validation_order_two_characters_instances:
  "make_move '''' '''' game_white_won = (Inl GameOverError, game_white_won)
   \<and> make_move ''e2'' ''i9'' init_game = (Inl IllegalMoveError, init_game)
   \<and> make_move ''e3'' ''e4'' init_game = (Inl IllegalMoveError, init_game)
   \<and> make_move ''e7'' ''e5'' init_game = (Inl MoveOutOfTurnError, init_game)
   \<and> make_move ''e2'' ''e4'' init_game = conclude_move (move 4 (CHR ''e'', CHR ''4'') init_game)"
proof -
  have over: "game_state game_white_won \<noteq> UNFINISHED" by code_simp
  have unf: "game_state init_game = UNFINISHED" by (simp add: init_game_def)
  have b: "on_board (CHR ''e'', CHR ''2'')" "on_board (CHR ''e'', CHR ''3'')"
    "on_board (CHR ''e'', CHR ''4'')" "on_board (CHR ''e'', CHR ''5'')"
    "on_board (CHR ''e'', CHR ''7'')" "\<not> on_board (CHR ''i'', CHR ''9'')"
    by (simp_all add: on_board_def)
  have e3: "board_state init_game (CHR ''e'', CHR ''3'') = None" by code_simp
  have e7: "board_state init_game (CHR ''e'', CHR ''7'') = Some 20" by code_simp
  have e2: "board_state init_game (CHR ''e'', CHR ''2'') = Some 4" by code_simp
  have o20: "owner (pieces init_game 20) \<noteq> turn init_game" by code_simp
  have o4: "owner (pieces init_game 4) = turn init_game" by code_simp
  from validation_order_two_characters[of game_white_won "''''" "''''"] over
  have 1: "make_move '''' '''' game_white_won = (Inl GameOverError, game_white_won)" by blast
  from validation_order_two_characters[of init_game _ _ "CHR ''e''" "CHR ''2''" "CHR ''i''" "CHR ''9''" "[]" "[]"] unf b
  have 2: "make_move ''e2'' ''i9'' init_game = (Inl IllegalMoveError, init_game)" by blast
  from validation_order_two_characters[of init_game _ _ "CHR ''e''" "CHR ''3''" "CHR ''e''" "CHR ''4''"] unf b e3
  have 3: "make_move ''e3'' ''e4'' init_game = (Inl IllegalMoveError, init_game)" by blast
  from validation_order_two_characters[of init_game _ _ "CHR ''e''" "CHR ''7''" "CHR ''e''" "CHR ''5''" _ _ 20] unf b e7 o20
  have 4: "make_move ''e7'' ''e5'' init_game = (Inl MoveOutOfTurnError, init_game)" by blast
  from validation_order_two_characters[of init_game _ _ "CHR ''e''" "CHR ''2''" "CHR ''e''" "CHR ''4''" _ _ 4] unf b e2 o4
  have 5: "make_move ''e2'' ''e4'' init_game = conclude_move (move 4 (CHR ''e'', CHR ''4'') init_game)" by blast
  from 1 2 3 4 5 show ?thesis by blast
qed

section \<open>Results\<close>

text \<open>
  C10: \<open>set_turn\<close> gives the turn to the White player exactly when its argument is the
  string "White"; every other string gives the turn to the Black player. The call always
  returns, and changes nothing but the turn.
\<close>

theorem set_turn_white_iff:
  "(turn (set_turn t g) = White \<longleftrightarrow> t = ''White'')
   \<and> (turn (set_turn t g) = Black \<longleftrightarrow> t \<noteq> ''White'')
   \<and> board_state (set_turn t g) = board_state g
   \<and> game_state (set_turn t g) = game_state g
   \<and> pieces (set_turn t g) = pieces g
   \<and> piece_list (set_turn t g) = piece_list g"
  by (simp add: set_turn_def)

text \<open>
  C3: when \<open>make_move\<close> raises \<open>GameOverError\<close>, \<open>MoveOutOfTurnError\<close> or
  \<open>IllegalMoveError\<close>, the board, the pieces, both piece lists, the turn and the game state
  are what they were before the call. The same holds when it raises \<open>IndexError\<close>,
  \<open>KeyError\<close> or \<open>AttributeError\<close>.
\<close>

theorem make_move_rejected_unchanged:
  assumes "fst (make_move string1 string2 g) = Inl e"
    and "e \<in> {GameOverError, MoveOutOfTurnError, IllegalMoveError, IndexError, KeyError, AttributeError}"
  shows "snd (make_move string1 string2 g) = g"
proof -
  from make_move_cases[of string1 string2 g] show ?thesis
  proof
    assume "\<exists>src p starting dest d.
        game_state g = UNFINISHED
        \<and> off_board string1 string2 = Inr False
        \<and> get_board_position string1 = Inr src \<and> board_state g src = Some p
        \<and> owner (pieces g p) = turn g
        \<and> get_board_position string2 = Inr dest
        \<and> position (pieces g p) = Some starting \<and> classify starting dest = Some d
        \<and> legal_move g p starting d dest = Inr True
        \<and> make_move string1 string2 g = conclude_move (execute_move p starting dest g)"
    then obtain p starting dest where
      "make_move string1 string2 g = conclude_move (execute_move p starting dest g)" by blast
    with conclude_move_execute[of p starting dest g] assms show ?thesis by auto
  qed simp
qed

theorem make_move_rejected_unchanged_witness:
  "fst (make_move ''e2'' ''e5'' init_game) = Inl IllegalMoveError
   \<and> snd (make_move ''e2'' ''e5'' init_game) = init_game"
proof -
  have h: "fst (make_move ''e2'' ''e5'' init_game) = Inl IllegalMoveError" by code_simp
  from make_move_rejected_unchanged[OF h] h show ?thesis by simp
qed

text \<open>
  C7: \<open>make_move\<close> should reject a coordinate outside a1..h8 with \<open>IllegalMoveError\<close>
  before it looks at the origin square and at the turn. The range test reads only the first
  two characters of each string, so in a fresh game the destination "e4x", which is no key
  of the board, passes it: with Black's pawn on e7 as origin the call goes on to the turn
  check and raises \<open>MoveOutOfTurnError\<close>, with White's pawn on e2 as origin it raises
  \<open>KeyError\<close> at the lookup of the destination, and the origin "e3x" raises \<open>KeyError\<close> at
  the lookup of the origin.
\<close>

theorem make_move_long_coordinate_passes_range_test:
  "game_state init_game = UNFINISHED
   \<and> ''e4x'' \<notin> set board_keys
   \<and> ''e3x'' \<notin> set board_keys
   \<and> off_board ''e7'' ''e4x'' = Inr False
   \<and> off_board ''e3x'' ''e4'' = Inr False
   \<and> fst (make_move ''e7'' ''e4x'' init_game) = Inl MoveOutOfTurnError
   \<and> fst (make_move ''e2'' ''e4x'' init_game) = Inl KeyError
   \<and> fst (make_move ''e3x'' ''e4'' init_game) = Inl KeyError"
  by code_simp

text \<open>
  C8: a coordinate string that is not a file letter followed by a rank digit should be
  rejected with one of the engine's error kinds. In a fresh game the empty string and a
  one-character string raise \<open>IndexError\<close> instead, and a three-character string whose
  first two characters are on the board raises \<open>KeyError\<close>.
\<close>

theorem make_move_malformed_coordinate:
  "fst (make_move '''' ''e4'' init_game) = Inl IndexError
   \<and> fst (make_move ''e'' ''e4'' init_game) = Inl IndexError
   \<and> fst (make_move ''e2x'' ''e4'' init_game) = Inl KeyError
   \<and> fst (make_move ''e2'' ''e4x'' init_game) = Inl KeyError"
  by code_simp

text \<open>
  C2: a capturing move should return the captured piece. After 1. e2-e4 d7-d5 the
  capture e4xd5 makes \<open>Piece.move\<close> return the captured pawn (the piece at address 19),
  but \<open>make_move\<close> returns \<open>True\<close>, the very value it returns for the plain move e2-e4.
\<close>

theorem make_move_capture_returns_True:
  "fst (move 4 (CHR ''d'', CHR ''5'') game_e4_d5) = Inr (MPiece 19)
   \<and> fst (make_move ''e4'' ''d5'' game_e4_d5) = Inr True
   \<and> fst (make_move ''e2'' ''e4'' init_game) = Inr True"
  by code_simp

text \<open>
  C1, as stated, fails: in the game 1. e2-e4 d7-d5 2. Bf1-b5 h7-h6 the move 3. Bb5xe8
  captures the only King in Black's list; the game state becomes \<open>WHITE_WON\<close>, and the
  turn passes from White to Black all the same.
\<close>

theorem capture_of_last_flips_turn:
  "board_state game_bishop_b5 (CHR ''e'', CHR ''8'') = Some 31
   \<and> ptype (pieces game_bishop_b5 31) = King
   \<and> map (ptype \<circ> pieces game_bishop_b5)
        (piece_list game_bishop_b5 (owner (pieces game_bishop_b5 31)))
       = [Pawn, Pawn, Pawn, Pawn, Pawn, Pawn, Pawn, Pawn,
          Rook, Rook, Knight, Knight, Bishop, Bishop, Queen, King]
   \<and> turn game_bishop_b5 = White
   \<and> fst (make_move ''b5'' ''e8'' game_bishop_b5) = Inr True
   \<and> game_state (snd (make_move ''b5'' ''e8'' game_bishop_b5)) = WHITE_WON
   \<and> turn (snd (make_move ''b5'' ''e8'' game_bishop_b5)) = Black"
  by code_simp

text \<open>
  C1, amended: in every reachable game, a call of \<open>make_move\<close> that captures a piece sets
  the game state to the mover's win state (\<open>WHITE_WON\<close> for White, \<open>BLACK_WON\<close> for
  Black) when no other piece of the captured piece's type is in its owner's list, and
  leaves it \<open>UNFINISHED\<close> otherwise; in both cases the turn passes to the other player.
\<close>

theorem capture_sets_winner_and_flips_turn:
  assumes "reachable g"
    and "fst (make_move string1 string2 g) = Inr b"
    and "get_board_position string2 = Inr dest"
    and "board_state g dest = Some c"
  shows "turn (snd (make_move string1 string2 g)) = (if turn g = White then Black else White)
    \<and> game_state (snd (make_move string1 string2 g)) =
        (if \<forall>q\<in>set (piece_list g (owner (pieces g c))).
              q \<noteq> c \<longrightarrow> ptype (pieces g q) \<noteq> ptype (pieces g c)
         then (if turn g = White then WHITE_WON else BLACK_WON)
         else UNFINISHED)"
proof -
  from make_move_capture[OF assms(2-4)] obtain p starting where
    ne: "starting \<noteq> dest" and unf: "game_state g = UNFINISHED" and
    mem: "c \<in> set (piece_list g (owner (pieces g c)))" and
    mm: "make_move string1 string2 g = conclude_move (execute_move p starting dest g)"
    by blast
  from reachable_invariant[OF assms(1)] have "distinct (piece_list g (owner (pieces g c)))"
    unfolding rosters_distinct_def by (cases "owner (pieces g c)") simp_all
  hence s: "set (remove1 c (piece_list g (owner (pieces g c))))
            = set (piece_list g (owner (pieces g c))) - {c}"
    by (rule set_remove1_eq)
  have b: "(\<forall>q\<in>set (piece_list g (owner (pieces g c))) - {c}. ptype (pieces g q) \<noteq> ptype (pieces g c))
      \<longleftrightarrow> (\<forall>q\<in>set (piece_list g (owner (pieces g c))). q \<noteq> c \<longrightarrow> ptype (pieces g q) \<noteq> ptype (pieces g c))"
    by blast
  note r = capture_result[OF ne assms(4) mem, of p, folded mm]
  show ?thesis unfolding r(1) r(5) s b unf by simp
qed

theorem capture_sets_winner_and_flips_turn_witness:
  "reachable game_e4_d5
   \<and> fst (make_move ''e4'' ''d5'' game_e4_d5) = Inr True
   \<and> board_state game_e4_d5 (CHR ''d'', CHR ''5'') = Some 19
   \<and> turn game_e4_d5 = White
   \<and> turn (snd (make_move ''e4'' ''d5'' game_e4_d5)) = Black
   \<and> game_state (snd (make_move ''e4'' ''d5'' game_e4_d5)) = UNFINISHED
   \<and> reachable game_bishop_b5
   \<and> fst (make_move ''b5'' ''e8'' game_bishop_b5) = Inr True
   \<and> board_state game_bishop_b5 (CHR ''e'', CHR ''8'') = Some 31
   \<and> turn game_bishop_b5 = White
   \<and> turn (snd (make_move ''b5'' ''e8'' game_bishop_b5)) = Black
   \<and> game_state (snd (make_move ''b5'' ''e8'' game_bishop_b5)) = WHITE_WON"
proof -
  have ok1: "fst (make_move ''e4'' ''d5'' game_e4_d5) = Inr True" by code_simp
  have d1: "get_board_position ''d5'' = Inr (CHR ''d'', CHR ''5'')" by code_simp
  have c1: "board_state game_e4_d5 (CHR ''d'', CHR ''5'') = Some 19" by code_simp
  have t1: "turn game_e4_d5 = White" by code_simp
  have other1: "\<not> (\<forall>q\<in>set (piece_list game_e4_d5 (owner (pieces game_e4_d5 19))).
      q \<noteq> 19 \<longrightarrow> ptype (pieces game_e4_d5 q) \<noteq> ptype (pieces game_e4_d5 19))"
    by code_simp
  have ok2: "fst (make_move ''b5'' ''e8'' game_bishop_b5) = Inr True" by code_simp
  have d2: "get_board_position ''e8'' = Inr (CHR ''e'', CHR ''8'')" by code_simp
  have c2: "board_state game_bishop_b5 (CHR ''e'', CHR ''8'') = Some 31" by code_simp
  have t2: "turn game_bishop_b5 = White" by code_simp
  have other2: "\<forall>q\<in>set (piece_list game_bishop_b5 (owner (pieces game_bishop_b5 31))).
      q \<noteq> 31 \<longrightarrow> ptype (pieces game_bishop_b5 q) \<noteq> ptype (pieces game_bishop_b5 31)"
    by code_simp
  from capture_sets_winner_and_flips_turn[OF reachable_game_e4_d5 ok1 d1 c1] t1 other1
  have r1: "turn (snd (make_move ''e4'' ''d5'' game_e4_d5)) = Black"
    "game_state (snd (make_move ''e4'' ''d5'' game_e4_d5)) = UNFINISHED"
    by simp_all
  from capture_sets_winner_and_flips_turn[OF reachable_game_bishop_b5 ok2 d2 c2] t2 other2
  have r2: "turn (snd (make_move ''b5'' ''e8'' game_bishop_b5)) = Black"
    "game_state (snd (make_move ''b5'' ''e8'' game_bishop_b5)) = WHITE_WON"
    by simp_all
  from reachable_game_e4_d5 reachable_game_bishop_b5 ok1 c1 t1 r1 ok2 c2 t2 r2
  show ?thesis by simp
qed

text \<open>
  C4: when a move captures, the captured piece is first removed from its owner's
  \<open>piece_list\<close>, and that owner is the mover's opponent. The mover's win state is set if
  and only if no piece of the captured piece's type is left in that list after the
  removal.
\<close>

theorem capture_win_counts_survivors:
  assumes "fst (make_move string1 string2 g) = Inr b"
    and "get_board_position string2 = Inr dest"
    and "board_state g dest = Some c"
  shows "owner (pieces g c) \<noteq> turn g
    \<and> piece_list (snd (make_move string1 string2 g)) (owner (pieces g c))
        = remove1 c (piece_list g (owner (pieces g c)))
    \<and> (game_state (snd (make_move string1 string2 g))
          = (if turn g = White then WHITE_WON else BLACK_WON)
        \<longleftrightarrow> (\<forall>q\<in>set (piece_list (snd (make_move string1 string2 g)) (owner (pieces g c))).
               ptype (pieces (snd (make_move string1 string2 g)) q) \<noteq> ptype (pieces g c)))"
proof -
  from make_move_capture[OF assms] obtain p starting where
    ne: "starting \<noteq> dest" and unf: "game_state g = UNFINISHED" and
    opp: "owner (pieces g c) \<noteq> turn g" and
    mem: "c \<in> set (piece_list g (owner (pieces g c)))" and
    mm: "make_move string1 string2 g = conclude_move (execute_move p starting dest g)"
    by blast
  note r = capture_result[OF ne assms(3) mem, of p, folded mm]
  show ?thesis using opp unf by (simp add: r)
qed

theorem capture_win_counts_survivors_witness:
  "board_state game_bishop_b5 (CHR ''e'', CHR ''8'') = Some 31
   \<and> fst (make_move ''b5'' ''e8'' game_bishop_b5) = Inr True
   \<and> owner (pieces game_bishop_b5 31) = Black \<and> turn game_bishop_b5 = White
   \<and> piece_list game_white_won Black = [16..<31]
   \<and> game_state game_white_won = WHITE_WON
   \<and> list_all (\<lambda>q. ptype (pieces game_white_won q) \<noteq> King) (piece_list game_white_won Black)"
proof -
  have ok: "fst (make_move ''b5'' ''e8'' game_bishop_b5) = Inr True" by code_simp
  have d: "get_board_position ''e8'' = Inr (CHR ''e'', CHR ''8'')" by code_simp
  have c: "board_state game_bishop_b5 (CHR ''e'', CHR ''8'') = Some 31" by code_simp
  have o: "owner (pieces game_bishop_b5 31) = Black" by code_simp
  have t: "turn game_bishop_b5 = White" by code_simp
  have k: "ptype (pieces game_bishop_b5 31) = King" by code_simp
  have pl: "piece_list game_bishop_b5 Black = [16..<32]" by code_simp
  have upt: "remove1 31 [16..<32] = [16..<31]" by code_simp
  have gs: "game_state game_white_won = WHITE_WON" by code_simp
  from capture_win_counts_survivors[OF ok d c]
  have pl': "piece_list game_white_won Black = remove1 31 (piece_list game_bishop_b5 Black)"
    and iff: "game_state game_white_won = WHITE_WON \<longleftrightarrow>
      (\<forall>q\<in>set (piece_list game_white_won Black). ptype (pieces game_white_won q) \<noteq> King)"
    unfolding game_white_won_def[symmetric] o t k by simp_all
  from iff gs have "list_all (\<lambda>q. ptype (pieces game_white_won q) \<noteq> King) (piece_list game_white_won Black)"
    unfolding list_all_iff by blast
  with ok c o t gs pl' pl upt show ?thesis by simp
qed

text \<open>
  C9: after every accepted move made in a reachable game, every piece that a board
  position holds records that board position as its own position, and the position of
  the piece that stood on the destination before the move, if there was one, is \<open>None\<close>.
\<close>

theorem accepted_move_keeps_consistency:
  assumes "reachable g" and "fst (make_move string1 string2 g) = Inr b"
  shows "(\<forall>sq p. board_state (snd (make_move string1 string2 g)) sq = Some p
            \<longrightarrow> position (pieces (snd (make_move string1 string2 g)) p) = Some sq)
    \<and> (\<forall>dest c. get_board_position string2 = Inr dest \<and> board_state g dest = Some c
            \<longrightarrow> position (pieces (snd (make_move string1 string2 g)) c) = None)"
proof -
  from assms(1) have "reachable (snd (make_move string1 string2 g))" by (rule reachable.moved)
  hence "consistent (snd (make_move string1 string2 g))" using reachable_invariant by blast
  hence first: "\<forall>sq p. board_state (snd (make_move string1 string2 g)) sq = Some p
            \<longrightarrow> position (pieces (snd (make_move string1 string2 g)) p) = Some sq"
    unfolding consistent_def .
  have "position (pieces (snd (make_move string1 string2 g)) c) = None"
    if d: "get_board_position string2 = Inr dest" and c: "board_state g dest = Some c" for dest c
  proof -
    from make_move_capture[OF assms(2) d c] obtain p starting where
      ne: "starting \<noteq> dest" and
      mem: "c \<in> set (piece_list g (owner (pieces g c)))" and
      mm: "make_move string1 string2 g = conclude_move (execute_move p starting dest g)"
      by blast
    from capture_result(4)[OF ne c mem, of p, folded mm] show ?thesis .
  qed
  with first show ?thesis by blast
qed

theorem accepted_move_keeps_consistency_witness:
  "reachable game_e4_d5
   \<and> fst (make_move ''e4'' ''d5'' game_e4_d5) = Inr True
   \<and> board_state (snd (make_move ''e4'' ''d5'' game_e4_d5)) (CHR ''d'', CHR ''5'') = Some 4
   \<and> position (pieces (snd (make_move ''e4'' ''d5'' game_e4_d5)) 4) = Some (CHR ''d'', CHR ''5'')
   \<and> board_state game_e4_d5 (CHR ''d'', CHR ''5'') = Some 19
   \<and> position (pieces (snd (make_move ''e4'' ''d5'' game_e4_d5)) 19) = None"
proof -
  have ok: "fst (make_move ''e4'' ''d5'' game_e4_d5) = Inr True" by code_simp
  have d: "get_board_position ''d5'' = Inr (CHR ''d'', CHR ''5'')" by code_simp
  have c: "board_state game_e4_d5 (CHR ''d'', CHR ''5'') = Some 19" by code_simp
  have n: "board_state (snd (make_move ''e4'' ''d5'' game_e4_d5)) (CHR ''d'', CHR ''5'') = Some 4"
    by code_simp
  note r = accepted_move_keeps_consistency[OF reachable_game_e4_d5 ok]
  from r n have 1: "position (pieces (snd (make_move ''e4'' ''d5'' game_e4_d5)) 4) = Some (CHR ''d'', CHR ''5'')"
    by blast
  from r d c have 2: "position (pieces (snd (make_move ''e4'' ''d5'' game_e4_d5)) 19) = None"
    by blast
  from reachable_game_e4_d5 ok n c 1 2 show ?thesis by simp
qed

text \<open>
  C5: a Pawn stands on its owner's starting rank (rank 2 for White, rank 7 for Black), on
  file \<open>f\<close>; \<open>r1\<close> and \<open>r2\<close> are the ranks one and two squares ahead. A move is legal when
  \<open>move\<close> returns \<open>True\<close> or the captured piece, and rejected when it returns \<open>False\<close>.
  The straight move by one square is legal if and only if the destination is empty; the
  straight move by two squares is legal if and only if the square in between and the
  destination are both empty; the move one square ahead onto a neighbouring file is legal
  if and only if the destination holds a piece of the other owner, which \<open>move\<close> then
  returns (or \<open>list.remove\<close> raises, should that piece be missing from its owner's list),
  and is rejected on an empty square and on a piece of the same owner.
\<close>

theorem pawn_on_starting_rank:
  assumes "ptype (pieces g p) = Pawn"
    and "position (pieces g p) = Some (f, r0)"
    and "f \<in> set ''abcdefgh''"
    and "owner (pieces g p) = White \<and> r0 = CHR ''2'' \<and> r1 = CHR ''3'' \<and> r2 = CHR ''4''
         \<or> owner (pieces g p) = Black \<and> r0 = CHR ''7'' \<and> r1 = CHR ''6'' \<and> r2 = CHR ''5''"
  shows "fst (move p (f, r1) g)
           = (if board_state g (f, r1) = None then Inr MTrue else Inr MFalse)
    \<and> fst (move p (f, r2) g)
           = (if board_state g (f, r1) = None \<and> board_state g (f, r2) = None
              then Inr MTrue else Inr MFalse)
    \<and> (next_file f f' \<or> next_file f' f \<longrightarrow>
         fst (move p (f', r1) g)
           = (case board_state g (f', r1) of
                None \<Rightarrow> Inr MFalse
              | Some q \<Rightarrow>
                  if owner (pieces g q) = owner (pieces g p) then Inr MFalse
                  else if q \<in> set (piece_list g (owner (pieces g q))) then Inr (MPiece q)
                  else Inl ValueError))"
proof -
  have one: "fst (move p (f, r1) g)
           = (if board_state g (f, r1) = None then Inr MTrue else Inr MFalse)"
    using assms(4)
  proof
    assume w: "owner (pieces g p) = White \<and> r0 = CHR ''2'' \<and> r1 = CHR ''3'' \<and> r2 = CHR ''4''"
    have cl: "classify (f, CHR ''2'') (f, CHR ''3'') = Some Up" by (simp add: classify_def Let_def)
    have ne: "(f, CHR ''2'') \<noteq> (f, CHR ''3'')" by simp
    show ?thesis
      using w assms(1,2) cl execute_move_no_capture[OF ne, of g p]
      by (simp add: move_def legal_move_def step_of_def pawn_forward_step[OF assms(3)]
          split: option.splits)
  next
    assume b: "owner (pieces g p) = Black \<and> r0 = CHR ''7'' \<and> r1 = CHR ''6'' \<and> r2 = CHR ''5''"
    have cl: "classify (f, CHR ''7'') (f, CHR ''6'') = Some Down" by (simp add: classify_def Let_def)
    have ne: "(f, CHR ''7'') \<noteq> (f, CHR ''6'')" by simp
    show ?thesis
      using b assms(1,2) cl execute_move_no_capture[OF ne, of g p]
      by (simp add: move_def legal_move_def step_of_def pawn_forward_step[OF assms(3)]
          split: option.splits)
  qed
  have two: "fst (move p (f, r2) g)
           = (if board_state g (f, r1) = None \<and> board_state g (f, r2) = None
              then Inr MTrue else Inr MFalse)"
    using assms(4)
  proof
    assume w: "owner (pieces g p) = White \<and> r0 = CHR ''2'' \<and> r1 = CHR ''3'' \<and> r2 = CHR ''4''"
    have cl: "classify (f, CHR ''2'') (f, CHR ''4'') = Some Up" by (simp add: classify_def Let_def)
    have ne: "(f, CHR ''2'') \<noteq> (f, CHR ''4'')" by simp
    show ?thesis
      using w assms(1,2) cl execute_move_no_capture[OF ne, of g p]
      by (simp add: move_def legal_move_def step_of_def pawn_forward_step[OF assms(3)]
          split: option.splits)
  next
    assume b: "owner (pieces g p) = Black \<and> r0 = CHR ''7'' \<and> r1 = CHR ''6'' \<and> r2 = CHR ''5''"
    have cl: "classify (f, CHR ''7'') (f, CHR ''5'') = Some Down" by (simp add: classify_def Let_def)
    have ne: "(f, CHR ''7'') \<noteq> (f, CHR ''5'')" by simp
    show ?thesis
      using b assms(1,2) cl execute_move_no_capture[OF ne, of g p]
      by (simp add: move_def legal_move_def step_of_def pawn_forward_step[OF assms(3)]
          split: option.splits)
  qed
  have diag: "fst (move p (f', r1) g)
           = (case board_state g (f', r1) of
                None \<Rightarrow> Inr MFalse
              | Some q \<Rightarrow>
                  if owner (pieces g q) = owner (pieces g p) then Inr MFalse
                  else if q \<in> set (piece_list g (owner (pieces g q))) then Inr (MPiece q)
                  else Inl ValueError)"
    if n: "next_file f f' \<or> next_file f' f"
  proof -
    from n have fne: "f \<noteq> f'" using next_file_less by auto
    have dir: "classify (f, CHR ''2'') (f', CHR ''3'')
                 = Some (if next_file f f' then DiagUpRight else DiagUpLeft)"
      "classify (f, CHR ''7'') (f', CHR ''6'')
                 = Some (if next_file f f' then DiagDownRight else DiagDownLeft)"
      using n next_file_less[of f f'] next_file_less[of f' f]
      by (auto simp: classify_def Let_def)
    have st: "next_position Pawn White (f, CHR ''2'')
                 (if next_file f f' then DiagUpRight else DiagUpLeft) (f', CHR ''3'')
               = Inr (Some (f', CHR ''3''))"
      "next_position Pawn Black (f, CHR ''7'')
                 (if next_file f f' then DiagDownRight else DiagDownLeft) (f', CHR ''6'')
               = Inr (Some (f', CHR ''6''))"
      using n by (auto simp: pawn_diagonal_step)
    have dg: "diagonal (if next_file f f' then DiagUpRight else DiagUpLeft)"
      "diagonal (if next_file f f' then DiagDownRight else DiagDownLeft)"
      by simp_all
    from assms(4) show ?thesis
    proof
      assume w: "owner (pieces g p) = White \<and> r0 = CHR ''2'' \<and> r1 = CHR ''3'' \<and> r2 = CHR ''4''"
      have ne: "(f, CHR ''2'') \<noteq> (f', CHR ''3'')" by simp
      show ?thesis
      proof (cases "board_state g (f', CHR ''3'')")
        case None
        with w assms(1,2) dir(1) st(1) dg(1) show ?thesis
          by (simp add: move_def legal_move_def pawn_diagonal_def step_of_def)
      next
        case (Some q)
        with w assms(1,2) dir(1) st(1) dg(1) execute_move_capture[OF ne Some, of p]
        show ?thesis
          by (simp add: move_def legal_move_def pawn_diagonal_def step_of_def occupied_test_def)
      qed
    next
      assume b: "owner (pieces g p) = Black \<and> r0 = CHR ''7'' \<and> r1 = CHR ''6'' \<and> r2 = CHR ''5''"
      have ne: "(f, CHR ''7'') \<noteq> (f', CHR ''6'')" by simp
      show ?thesis
      proof (cases "board_state g (f', CHR ''6'')")
        case None
        with b assms(1,2) dir(2) st(2) dg(2) show ?thesis
          by (simp add: move_def legal_move_def pawn_diagonal_def step_of_def)
      next
        case (Some q)
        with b assms(1,2) dir(2) st(2) dg(2) execute_move_capture[OF ne Some, of p]
        show ?thesis
          by (simp add: move_def legal_move_def pawn_diagonal_def step_of_def occupied_test_def)
      qed
    qed
  qed
  from one two diag show ?thesis by blast
qed

theorem pawn_on_starting_rank_witness:
  "fst (move 4 (CHR ''e'', CHR ''3'') init_game) = Inr MTrue
   \<and> fst (move 4 (CHR ''e'', CHR ''4'') init_game) = Inr MTrue
   \<and> fst (move 4 (CHR ''d'', CHR ''3'') init_game) = Inr MFalse
   \<and> fst (move 17 (CHR ''b'', CHR ''5'') game_bishop_a6) = Inr MTrue
   \<and> fst (move 17 (CHR ''a'', CHR ''6'') game_bishop_a6) = Inr (MPiece 13)"
proof -
  have w: "ptype (pieces init_game 4) = Pawn"
    "position (pieces init_game 4) = Some (CHR ''e'', CHR ''2'')"
    "CHR ''e'' \<in> set ''abcdefgh''"
    "owner (pieces init_game 4) = White"
    "next_file (CHR ''d'') (CHR ''e'')"
    "board_state init_game (CHR ''e'', CHR ''3'') = None"
    "board_state init_game (CHR ''e'', CHR ''4'') = None"
    "board_state init_game (CHR ''d'', CHR ''3'') = None"
    by code_simp+
  from pawn_on_starting_rank[of init_game 4 "CHR ''e''" "CHR ''2''" "CHR ''3''" "CHR ''4''" "CHR ''d''"] w
  have 1: "fst (move 4 (CHR ''e'', CHR ''3'') init_game) = Inr MTrue"
    "fst (move 4 (CHR ''e'', CHR ''4'') init_game) = Inr MTrue"
    "fst (move 4 (CHR ''d'', CHR ''3'') init_game) = Inr MFalse"
    by simp_all
  have b: "ptype (pieces game_bishop_a6 17) = Pawn"
    "position (pieces game_bishop_a6 17) = Some (CHR ''b'', CHR ''7'')"
    "CHR ''b'' \<in> set ''abcdefgh''"
    "owner (pieces game_bishop_a6 17) = Black"
    "next_file (CHR ''a'') (CHR ''b'')"
    "board_state game_bishop_a6 (CHR ''b'', CHR ''6'') = None"
    "board_state game_bishop_a6 (CHR ''b'', CHR ''5'') = None"
    "board_state game_bishop_a6 (CHR ''a'', CHR ''6'') = Some 13"
    "owner (pieces game_bishop_a6 13) = White"
    "13 \<in> set (piece_list game_bishop_a6 White)"
    by code_simp+
  from pawn_on_starting_rank[of game_bishop_a6 17 "CHR ''b''" "CHR ''7''" "CHR ''6''" "CHR ''5''" "CHR ''a''"] b
  have 2: "fst (move 17 (CHR ''b'', CHR ''5'') game_bishop_a6) = Inr MTrue"
    "fst (move 17 (CHR ''a'', CHR ''6'') game_bishop_a6) = Inr (MPiece 13)"
    by simp_all
  from 1 2 show ?thesis by simp
qed



end
